(* ===== verification/Prelude.thy ===== *)
theory Prelude
  imports Main "HOL-Library.Word" "HOL-Library.AList" "HOL-Library.Char_ord"
    "HOL-Library.List_Lexorder" "HOL-Library.Sublist"
begin

text \<open>
  Shared vocabulary of the development: Go's \<open>[]byte\<close>, strings and the conversions between
  them, outcomes of a step that may block or panic, the generic run of a state machine over a
  list of operations, Go's \<open>sort.Search\<close>, and the list and map lemmas several components use.
\<close>

named_theorems go_simps \<open>equations that evaluate the Go-level helpers\<close>

section \<open>Bytes, slices and strings\<close>

type_synonym byte = "8 word"
type_synonym bytes = "byte list"

text \<open>A \<open>[]byte\<close> argument: \<open>None\<close> is the nil slice, which the code tells from an empty one.\<close>

type_synonym slice = "bytes option"

text \<open>\<open>make([]byte, len(s))\<close> followed by \<open>copy\<close>: the contents, nil giving the empty slice.\<close>

definition slice_copy :: "slice \<Rightarrow> bytes" where
  "slice_copy s = (case s of None \<Rightarrow> [] | Some b \<Rightarrow> b)"

lemma slice_copy_simps [simp, go_simps]:
  "slice_copy None = []" "slice_copy (Some b) = b"
  by (simp_all add: slice_copy_def)

definition byte_of_char :: "char \<Rightarrow> byte" where
  "byte_of_char c = word_of_nat (of_char c)"

definition char_of_byte :: "byte \<Rightarrow> char" where
  "char_of_byte b = char_of (unat b)"

text \<open>Go's conversions \<open>[]byte(s)\<close> and \<open>string(b)\<close>, which keep the bytes.\<close>

definition bytes_of_string :: "string \<Rightarrow> bytes" where
  "bytes_of_string s = map byte_of_char s"

definition string_of_bytes :: "bytes \<Rightarrow> string" where
  "string_of_bytes b = map char_of_byte b"

lemma unat_byte_of_char: "unat (byte_of_char c) = of_char c"
proof -
  have "of_char c mod 256 < (256::nat)"
    by (rule mod_less_divisor) simp
  then show ?thesis
    by (simp add: byte_of_char_def unat_of_nat take_bit_eq_mod)
qed

lemma char_of_byte_of_char [simp]: "char_of_byte (byte_of_char c) = c"
  by (simp add: char_of_byte_def unat_byte_of_char)

lemma byte_of_char_of_byte [simp]: "byte_of_char (char_of_byte b) = b"
proof -
  have "unat b < 256"
    using unsigned_less [of b] by simp
  then show ?thesis
    by (simp add: byte_of_char_def char_of_byte_def)
qed

lemma string_of_bytes_of_string [simp]: "string_of_bytes (bytes_of_string s) = s"
  by (simp add: string_of_bytes_def bytes_of_string_def comp_def)

lemma bytes_of_string_of_bytes [simp]: "bytes_of_string (string_of_bytes b) = b"
  by (simp add: string_of_bytes_def bytes_of_string_def comp_def)

lemma string_of_bytes_inject [simp]: "string_of_bytes a = string_of_bytes b \<longleftrightarrow> a = b"
  by (metis bytes_of_string_of_bytes)

lemma bytes_of_string_inject [simp]: "bytes_of_string s = bytes_of_string t \<longleftrightarrow> s = t"
  by (metis string_of_bytes_of_string)

lemma length_bytes_of_string [simp]: "length (bytes_of_string s) = length s"
  by (simp add: bytes_of_string_def)

text \<open>
  \<open>sort.Strings\<close> compares strings and \<open>bytes.Compare\<close> compares slices: both are the
  lexicographic order on the bytes, so the conversions are monotone.
\<close>

lemma byte_of_char_less: "byte_of_char c < byte_of_char d \<longleftrightarrow> c < d"
  by (simp add: word_less_nat_alt unat_byte_of_char less_char_def)

lemma byte_of_char_eq: "byte_of_char c = byte_of_char d \<longleftrightarrow> c = d"
  by (metis char_of_byte_of_char)

lemma bytes_of_string_less [simp]: "bytes_of_string s < bytes_of_string t \<longleftrightarrow> s < t"
proof (induction s arbitrary: t)
  case Nil
  show ?case by (cases t) (simp_all add: bytes_of_string_def)
next
  case (Cons c s)
  then show ?case
    by (cases t) (auto simp: bytes_of_string_def byte_of_char_less byte_of_char_eq)
qed

lemma bytes_of_string_le [simp]: "bytes_of_string s \<le> bytes_of_string t \<longleftrightarrow> s \<le> t"
  by (simp add: order_le_less)

section \<open>Decimal numbers\<close>

text \<open>The verb \<open>%d\<close>.\<close>

definition digit_char :: "nat \<Rightarrow> char" where
  "digit_char d = char_of (48 + d)"

fun show_nat :: "nat \<Rightarrow> string" where
  "show_nat n = (if n < 10 then [digit_char n] else show_nat (n div 10) @ [digit_char (n mod 10)])"

declare show_nat.simps [simp del]

definition show_int :: "int \<Rightarrow> string" where
  "show_int n = (if n < 0 then ''-'' @ show_nat (nat (- n)) else show_nat (nat n))"

section \<open>Outcomes of a step\<close>

text \<open>
  A step of a concurrent component is not enabled (its goroutine waits), moves to a next state,
  or panics with a message. Errors that the code returns are values inside \<open>'a\<close>.
\<close>

datatype 'a outcome = Blocked | Next 'a | Panic string

section \<open>Runs of a state machine\<close>

fun run_ops :: "('s \<Rightarrow> 'op \<Rightarrow> 'r \<times> 's) \<Rightarrow> 's \<Rightarrow> 'op list \<Rightarrow> 'r list \<times> 's" where
  "run_ops f s [] = ([], s)"
| "run_ops f s (x # xs) =
     (let (r, s') = f s x; (rs, s'') = run_ops f s' xs in (r # rs, s''))"

lemma run_ops_append:
  "run_ops f s (xs @ ys) =
     (let (rs, s') = run_ops f s xs; (rs', s'') = run_ops f s' ys in (rs @ rs', s''))"
  by (induction xs arbitrary: s) (auto split: prod.splits)

lemma length_run_ops [simp]: "length (fst (run_ops f s xs)) = length xs"
  by (induction xs arbitrary: s) (simp_all add: case_prod_beta Let_def)

text \<open>
  The one simulation argument of the development: an implementation whose every operation
  returns what the specification returns, and lands in a state that abstracts to the
  specification's, agrees with it on every run.
\<close>

locale simulation =
  fixes exec :: "'s \<Rightarrow> 'op \<Rightarrow> 'r \<times> 's"
    and spec :: "'a \<Rightarrow> 'op \<Rightarrow> 'r \<times> 'a"
    and abs :: "'s \<Rightarrow> 'a"
    and inv :: "'s \<Rightarrow> bool"
  assumes exec_result: "inv s \<Longrightarrow> fst (exec s x) = fst (spec (abs s) x)"
    and exec_abs: "inv s \<Longrightarrow> abs (snd (exec s x)) = snd (spec (abs s) x)"
    and exec_inv: "inv s \<Longrightarrow> inv (snd (exec s x))"
begin

lemma run_refines:
  "inv s \<Longrightarrow> inv (snd (run_ops exec s xs)) \<and>
     fst (run_ops exec s xs) = fst (run_ops spec (abs s) xs) \<and>
     abs (snd (run_ops exec s xs)) = snd (run_ops spec (abs s) xs)"
proof (induction xs arbitrary: s)
  case Nil
  then show ?case by simp
next
  case (Cons x xs)
  from Cons.IH [OF exec_inv [OF Cons.prems, of x]] show ?case
    using exec_result [OF Cons.prems, of x] exec_abs [OF Cons.prems, of x]
    by (auto simp: Let_def case_prod_beta)
qed

lemmas run_inv = run_refines [THEN conjunct1]
lemmas run_results = run_refines [THEN conjunct2, THEN conjunct1]
lemmas run_abs = run_refines [THEN conjunct2, THEN conjunct2]

end

section \<open>Go's sort.Search\<close>

text \<open>
  The standard library's binary search over \<open>[0, n)\<close>: \<open>i, j := 0, n; for i < j { h := (i+j)/2;
  if !f(h) { i = h+1 } else { j = h } }\<close>. The midpoint is computed on unsigned words there, so
  that it does not overflow; the indices here are lengths of lists.
\<close>

function sort_search_from :: "(nat \<Rightarrow> bool) \<Rightarrow> nat \<Rightarrow> nat \<Rightarrow> nat" where
  "sort_search_from f i j =
     (if i < j then
        (let h = (i + j) div 2
         in if \<not> f h then sort_search_from f (Suc h) j else sort_search_from f i h)
      else i)"
  by pat_completeness auto
termination
  by (relation "measure (\<lambda>(f, i, j). j - i)") auto

declare sort_search_from.simps [simp del]

definition sort_search :: "nat \<Rightarrow> (nat \<Rightarrow> bool) \<Rightarrow> nat" where
  "sort_search n f = sort_search_from f 0 n"

lemma sort_search_from_least:
  assumes "\<And>a b. a \<le> b \<Longrightarrow> b < n \<Longrightarrow> f a \<Longrightarrow> f b"
    and "i \<le> j" and "j \<le> n" and "\<forall>k<i. \<not> f k" and "\<forall>k. j \<le> k \<and> k < n \<longrightarrow> f k"
  shows "sort_search_from f i j \<le> n \<and> (\<forall>k. k < sort_search_from f i j \<longrightarrow> \<not> f k) \<and>
    (\<forall>k. sort_search_from f i j \<le> k \<and> k < n \<longrightarrow> f k)"
  using assms
proof (induction f i j rule: sort_search_from.induct)
  case (1 f i j)
  note mono = "1.prems"(1)
  show ?case
  proof (cases "i < j")
    case False
    with "1.prems" show ?thesis by (subst (1 2 3) sort_search_from.simps) auto
  next
    case True
    define h where "h = (i + j) div 2"
    have h: "i \<le> h" "h < j" using True by (auto simp: h_def)
    show ?thesis
    proof (cases "f h")
      case True
      have up: "\<forall>k. h \<le> k \<and> k < n \<longrightarrow> f k"
        using mono True h "1.prems" by blast
      have eq: "sort_search_from f i j = sort_search_from f i h"
        using \<open>i < j\<close> True by (subst sort_search_from.simps) (simp add: h_def)
      show ?thesis unfolding eq
        using \<open>i < j\<close> True h "1.prems" up
        by (intro "1.IH"(2) [OF _ h_def]) (auto intro: mono)
    next
      case False
      have low: "\<forall>k<Suc h. \<not> f k"
        using mono False h "1.prems"(3) by (metis less_Suc_eq_le order.strict_trans2)
      have eq: "sort_search_from f i j = sort_search_from f (Suc h) j"
        using \<open>i < j\<close> False by (subst sort_search_from.simps) (simp add: h_def)
      show ?thesis unfolding eq
        using \<open>i < j\<close> False h "1.prems" low
        by (intro "1.IH"(1) [OF _ h_def]) (auto intro: mono)
    qed
  qed
qed

lemma sort_search_spec:
  assumes "\<And>a b. a \<le> b \<Longrightarrow> b < n \<Longrightarrow> f a \<Longrightarrow> f b"
  shows "sort_search n f \<le> n"
    and "k < sort_search n f \<Longrightarrow> \<not> f k"
    and "sort_search n f \<le> k \<Longrightarrow> k < n \<Longrightarrow> f k"
proof -
  have "sort_search n f \<le> n \<and> (\<forall>k. k < sort_search n f \<longrightarrow> \<not> f k) \<and>
      (\<forall>k. sort_search n f \<le> k \<and> k < n \<longrightarrow> f k)"
    unfolding sort_search_def
  proof (rule sort_search_from_least)
    fix a b
    assume "a \<le> b" "b < n" "f a"
    then show "f b" by (rule assms)
  qed auto
  then show "sort_search n f \<le> n"
    and "k < sort_search n f \<Longrightarrow> \<not> f k"
    and "sort_search n f \<le> k \<Longrightarrow> k < n \<Longrightarrow> f k"
    by simp_all
qed

section \<open>Lists and association lists\<close>

text \<open>The elements of a list in order of first occurrence, past those already seen.\<close>

fun first_occs :: "'a set \<Rightarrow> 'a list \<Rightarrow> 'a list" where
  "first_occs seen [] = []"
| "first_occs seen (x # xs) =
     (if x \<in> seen then first_occs seen xs else x # first_occs (insert x seen) xs)"

lemma set_first_occs [simp]: "set (first_occs seen xs) = set xs - seen"
  by (induction xs arbitrary: seen) auto

lemma distinct_first_occs [simp]: "distinct (first_occs seen xs)"
  by (induction xs arbitrary: seen) auto

lemma first_occs_append:
  "first_occs seen (xs @ ys) = first_occs seen xs @ first_occs (seen \<union> set xs) ys"
  by (induction xs arbitrary: seen) (auto simp: insert_absorb)

lemma subseq_first_occs: "subseq (first_occs seen xs) xs"
  by (induction xs arbitrary: seen) (auto intro: subseq_Cons')

lemma set_update_subset: "set (AList.update k v al) \<subseteq> insert (k, v) (set al)"
  by (induction al) auto

declare AList.distinct_update [simp] AList.distinct_delete [simp]
declare AList.update_conv' [simp] AList.delete_conv' [simp]

lemma map_of_sorted_unique:
  fixes xs ys :: "('k::linorder \<times> 'v) list"
  assumes "sorted (map fst xs)" "distinct (map fst xs)"
    and "sorted (map fst ys)" "distinct (map fst ys)" and "map_of xs = map_of ys"
  shows "xs = ys"
proof -
  have same: "set xs = set ys"
    using assms(2,4,5) by (simp add: map_of_inject_set)
  then have "map fst xs = map fst ys"
    using assms(1-4) by (intro sorted_distinct_set_unique) auto
  moreover have "inj_on fst (set xs \<union> set ys)"
    using same assms(2) by (simp add: distinct_map)
  ultimately show ?thesis
    by (rule map_inj_on)
qed

end
