(* ===== verification/Store_Spec.thy ===== *)
theory Store_Spec
  imports Prelude
begin

text \<open>
  The contract of the storage layer (\<open>db/db.go\<close>): the sentinel errors, the operations of
  \<open>Store\<close>, \<open>Batch\<close> and \<open>Iterator\<close> as a client calls them, and an abstract store that says what
  each returns. \<open>Mock_Store\<close> and \<open>Pebble_Store\<close> implement it; the locales \<open>cursor\<close> and
  \<open>kv_store\<close> hold what follows for any implementation.
\<close>

section \<open>Errors\<close>

text \<open>
  The sentinels of \<open>db.go\<close>. \<open>ErrColumnFamilyNotFound\<close> carries the name that
  \<open>fmt.Errorf("%w: %q", ...)\<close> adds, and \<open>ErrEngine\<close> is an engine failure wrapped with the
  operation's message (\<open>"db: put failed: %w"\<close> and the like).
\<close>

datatype db_error =
    ErrClosed
  | ErrColumnFamilyNotFound string
  | ErrKeyNotFound
  | ErrNilKey
  | ErrBatchClosed
  | ErrEngine string string

definition DefaultColumnFamily :: string where
  "DefaultColumnFamily = ''default''"

section \<open>Operations and results\<close>

datatype batch_call = BatchPut string slice slice | BatchDelete string slice

text \<open>
  What a client does with a store. \<open>OpWrite\<close> is the use of a batch: \<open>NewBatch\<close>, the staging
  calls, \<open>Commit\<close>, \<open>Close\<close>. \<open>OpScan\<close> is the use of an iterator: \<open>NewIterator\<close>,
  \<open>SeekToFirst\<close>, then \<open>Key\<close>, \<open>Value\<close> and \<open>Next\<close> while \<open>Valid\<close>.
\<close>

datatype store_op =
    OpGet string slice
  | OpPut string slice slice
  | OpDelete string slice
  | OpHas string slice
  | OpWrite "batch_call list"
  | OpScan string
  | OpFlush
  | OpClose

text \<open>
  \<open>RBatch\<close> lists the staging calls' errors once the commit has succeeded; \<open>RNoReturn\<close> is a scan
  loop that does not end, and \<open>RPanic\<close> a run-time panic. The contract never allows either.
\<close>

datatype store_result =
    RBytes bytes
  | RBool bool
  | ROk
  | REntries "(bytes \<times> bytes) list"
  | RBatch "db_error option list"
  | RErr db_error
  | RNoReturn
  | RPanic string

definition result_of :: "db_error option \<Rightarrow> store_result" where
  "result_of e = (case e of None \<Rightarrow> ROk | Some x \<Rightarrow> RErr x)"

lemma result_of_simps [simp]: "result_of None = ROk" "result_of (Some e) = RErr e"
  by (simp_all add: result_of_def)

text \<open>The loop \<open>for it.Valid() { ...it.Key(), it.Value()...; it.Next() }\<close> over any iterator.\<close>

partial_function (option) collect ::
  "('i \<Rightarrow> bool) \<Rightarrow> ('i \<Rightarrow> slice) \<Rightarrow> ('i \<Rightarrow> slice) \<Rightarrow> ('i \<Rightarrow> 'i) \<Rightarrow> (bytes \<times> bytes) list \<Rightarrow> 'i
    \<Rightarrow> (bytes \<times> bytes) list option" where
  "collect valid key val step acc it =
     (if valid it
      then collect valid key val step (acc @ [(slice_copy (key it), slice_copy (val it))]) (step it)
      else Some acc)"

section \<open>The abstract store\<close>

type_synonym families = "string \<Rightarrow> (bytes \<Rightarrow> bytes option) option"

text \<open>An open store holds a map per registered column family; a closed one holds nothing.\<close>

datatype astore = AClosed | AOpen families

definition spec_locate :: "astore \<Rightarrow> string \<Rightarrow> slice \<Rightarrow> db_error + (families \<times> (bytes \<Rightarrow> bytes option) \<times> bytes)" where
  "spec_locate A cf key =
     (case A of
        AClosed \<Rightarrow> Inl ErrClosed
      | AOpen F \<Rightarrow>
          (case key of
             None \<Rightarrow> Inl ErrNilKey
           | Some k \<Rightarrow>
               (case F cf of
                  None \<Rightarrow> Inl (ErrColumnFamilyNotFound cf)
                | Some b \<Rightarrow> Inr (F, b, k))))"

definition upd_family :: "families \<Rightarrow> string \<Rightarrow> bytes \<Rightarrow> bytes option \<Rightarrow> families" where
  "upd_family F cf k ov = (case F cf of None \<Rightarrow> F | Some b \<Rightarrow> F(cf \<mapsto> b(k := ov)))"

text \<open>The entries of a family in key order.\<close>

definition sorted_entries :: "(bytes \<Rightarrow> bytes option) \<Rightarrow> (bytes \<times> bytes) list" where
  "sorted_entries b = map (\<lambda>k. (k, the (b k))) (sorted_list_of_set (dom b))"

text \<open>A staging call checks its key and its family, and yields the write to apply.\<close>

type_synonym write_op = "string \<times> bytes \<times> bytes option"

fun spec_stage :: "families \<Rightarrow> batch_call \<Rightarrow> db_error + write_op" where
  "spec_stage F (BatchPut cf key v) =
     (case key of None \<Rightarrow> Inl ErrNilKey
      | Some k \<Rightarrow> if F cf = None then Inl (ErrColumnFamilyNotFound cf)
                 else Inr (cf, k, Some (slice_copy v)))"
| "spec_stage F (BatchDelete cf key) =
     (case key of None \<Rightarrow> Inl ErrNilKey
      | Some k \<Rightarrow> if F cf = None then Inl (ErrColumnFamilyNotFound cf) else Inr (cf, k, None))"

definition apply_writes :: "families \<Rightarrow> write_op list \<Rightarrow> families" where
  "apply_writes F ws = foldl (\<lambda>G (cf, k, ov). upd_family G cf k ov) F ws"

definition staged :: "families \<Rightarrow> batch_call list \<Rightarrow> write_op list" where
  "staged F cs = List.map_filter (\<lambda>c. case spec_stage F c of Inl _ \<Rightarrow> None | Inr w \<Rightarrow> Some w) cs"

definition stage_errors :: "families \<Rightarrow> batch_call list \<Rightarrow> db_error option list" where
  "stage_errors F cs = map (\<lambda>c. case spec_stage F c of Inl e \<Rightarrow> Some e | Inr _ \<Rightarrow> None) cs"

fun spec_exec :: "astore \<Rightarrow> store_op \<Rightarrow> store_result \<times> astore" where
  "spec_exec A (OpGet cf key) =
     (case spec_locate A cf key of
        Inl e \<Rightarrow> (RErr e, A)
      | Inr (F, b, k) \<Rightarrow> (case b k of None \<Rightarrow> (RErr ErrKeyNotFound, A) | Some v \<Rightarrow> (RBytes v, A)))"
| "spec_exec A (OpPut cf key v) =
     (case spec_locate A cf key of
        Inl e \<Rightarrow> (RErr e, A)
      | Inr (F, b, k) \<Rightarrow> (ROk, AOpen (upd_family F cf k (Some (slice_copy v)))))"
| "spec_exec A (OpDelete cf key) =
     (case spec_locate A cf key of
        Inl e \<Rightarrow> (RErr e, A)
      | Inr (F, b, k) \<Rightarrow> (ROk, AOpen (upd_family F cf k None)))"
| "spec_exec A (OpHas cf key) =
     (case spec_locate A cf key of
        Inl e \<Rightarrow> (RErr e, A)
      | Inr (F, b, k) \<Rightarrow> (RBool (b k \<noteq> None), A))"
| "spec_exec A (OpWrite cs) =
     (case A of
        AClosed \<Rightarrow> (RErr ErrClosed, A)
      | AOpen F \<Rightarrow> (RBatch (stage_errors F cs), AOpen (apply_writes F (staged F cs))))"
| "spec_exec A (OpScan cf) =
     (case A of
        AClosed \<Rightarrow> (RErr ErrClosed, A)
      | AOpen F \<Rightarrow>
          (case F cf of
             None \<Rightarrow> (RErr (ErrColumnFamilyNotFound cf), A)
           | Some b \<Rightarrow> (REntries (sorted_entries b), A)))"
| "spec_exec A OpFlush = (case A of AClosed \<Rightarrow> (RErr ErrClosed, A) | AOpen _ \<Rightarrow> (ROk, A))"
| "spec_exec A OpClose = (case A of AClosed \<Rightarrow> (RErr ErrClosed, A) | AOpen _ \<Rightarrow> (ROk, AClosed))"

text \<open>A store that has just been opened with the given families, all empty.\<close>

definition empty_families :: "string list \<Rightarrow> families" where
  "empty_families cfs =
     (\<lambda>cf. if cf = DefaultColumnFamily \<or> cf \<in> set cfs then Some Map.empty else None)"

subsection \<open>Facts of the abstract store\<close>

lemma sorted_entries_keys:
  assumes "finite (dom b)"
  shows "map fst (sorted_entries b) = sorted_list_of_set (dom b)"
    and "sorted (map fst (sorted_entries b))" and "distinct (map fst (sorted_entries b))"
  using assms by (simp_all add: sorted_entries_def comp_def)

lemma map_of_sorted_entries:
  assumes "finite (dom b)"
  shows "map_of (sorted_entries b) = b"
proof
  fix k
  show "map_of (sorted_entries b) k = b k"
    using assms by (cases "b k") (auto simp: sorted_entries_def map_of_map_restrict restrict_map_def domIff)
qed

text \<open>Any sorted listing of a family's contents is \<open>sorted_entries\<close> of it.\<close>

lemma sorted_entriesI:
  assumes "sorted_wrt (<) (map fst es)" and "map_of es = b"
  shows "es = sorted_entries b"
proof -
  from assms(1) have es: "sorted (map fst es)" "distinct (map fst es)"
    by (auto simp: strict_sorted_iff)
  have fin: "finite (dom b)"
    using assms(2) finite_dom_map_of [of es] by simp
  show ?thesis
    using es sorted_entries_keys(2,3) [OF fin] map_of_sorted_entries [OF fin] assms(2)
    by (intro map_of_sorted_unique) simp_all
qed

lemma upd_family_None [simp]: "upd_family F cf k ov cf' = None \<longleftrightarrow> F cf' = None"
  by (auto simp: upd_family_def split: option.splits)

lemma dom_upd_family [simp]: "dom (upd_family F cf k ov) = dom F"
  by (auto simp: dom_def)

lemma upd_family_same: "F cf = Some b \<Longrightarrow> upd_family F cf k ov cf = Some (b(k := ov))"
  by (simp add: upd_family_def)

lemma upd_family_other: "cf' \<noteq> cf \<Longrightarrow> upd_family F cf k ov cf' = F cf'"
  by (simp add: upd_family_def split: option.splits)

lemma dom_apply_writes [simp]: "dom (apply_writes F ws) = dom F"
  unfolding apply_writes_def by (induction ws arbitrary: F) (auto split: prod.splits)

lemma apply_writes_simps [simp]:
  "apply_writes F [] = F"
  "apply_writes F ((cf, k, ov) # ws) = apply_writes (upd_family F cf k ov) ws"
  by (simp_all add: apply_writes_def)

lemma apply_writes_append: "apply_writes F (ws @ us) = apply_writes (apply_writes F ws) us"
  by (simp add: apply_writes_def)

lemma apply_writes_None [simp]: "apply_writes F ws cf = None \<longleftrightarrow> F cf = None"
  by (metis domIff dom_apply_writes)

lemma spec_stage_dom: "dom F = dom G \<Longrightarrow> spec_stage F c = spec_stage G c"
proof -
  assume "dom F = dom G"
  then have "F cf = None \<longleftrightarrow> G cf = None" for cf
    by (metis domIff)
  then show ?thesis by (cases c) (simp_all split: option.splits)
qed

lemma spec_stage_no_ErrClosed [simp]: "spec_stage F c \<noteq> Inl ErrClosed"
  by (cases c) (auto split: option.splits)

lemma spec_exec_closed [simp]: "spec_exec AClosed x = (RErr ErrClosed, AClosed)"
  by (cases x) (simp_all add: spec_locate_def)

lemma run_spec_closed:
  "run_ops spec_exec AClosed xs = (replicate (length xs) (RErr ErrClosed), AClosed)"
  by (induction xs) simp_all

lemma spec_exec_dom:
  "snd (spec_exec (AOpen F) x) = AOpen G \<Longrightarrow> dom G = dom F"
  by (cases x; clarsimp simp: spec_locate_def split: option.splits sum.splits)

lemma run_spec_dom:
  "snd (run_ops spec_exec (AOpen F) xs) = AOpen G \<Longrightarrow> dom G = dom F"
proof (induction xs arbitrary: F)
  case (Cons x xs)
  then have run: "snd (run_ops spec_exec (snd (spec_exec (AOpen F) x)) xs) = AOpen G"
    by (simp add: case_prod_beta Let_def)
  show ?case
  proof (cases "snd (spec_exec (AOpen F) x)")
    case AClosed
    with run show ?thesis by (simp add: run_spec_closed)
  next
    case (AOpen H)
    with Cons.IH [of H] run spec_exec_dom [OF AOpen] show ?thesis by simp
  qed
qed simp

lemma staged_families: "w \<in> set (staged F cs) \<Longrightarrow> F (fst w) \<noteq> None"
proof -
  assume "w \<in> set (staged F cs)"
  then obtain c where "spec_stage F c = Inr w"
    by (auto simp: staged_def List.map_filter_def split: sum.splits)
  then show ?thesis by (cases c) (auto split: option.splits if_splits)
qed

text \<open>A put or delete is a batch of one.\<close>

fun single_op :: "batch_call \<Rightarrow> store_op" where
  "single_op (BatchPut cf key v) = OpPut cf key v"
| "single_op (BatchDelete cf key) = OpDelete cf key"

lemma spec_single_op:
  "spec_exec (AOpen F) (single_op c) =
     (case spec_stage F c of
        Inl e \<Rightarrow> (RErr e, AOpen F)
      | Inr (cf, k, ov) \<Rightarrow> (ROk, AOpen (upd_family F cf k ov)))"
  by (cases c) (auto simp: spec_locate_def split: option.splits)

lemma spec_write_sequential:
  "run_ops spec_exec (AOpen F) (map single_op cs) =
     (map result_of (stage_errors F cs), AOpen (apply_writes F (staged F cs)))"
proof (induction cs arbitrary: F)
  case Nil
  show ?case by (simp add: stage_errors_def staged_def List.map_filter_simps)
next
  case (Cons c cs)
  show ?case
  proof (cases "spec_stage F c")
    case (Inl e)
    then show ?thesis
      using Cons.IH [of F]
      by (simp add: spec_single_op stage_errors_def staged_def List.map_filter_simps)
  next
    case (Inr w)
    obtain cf k ov where w: "w = (cf, k, ov)" by (cases w)
    have "spec_stage (upd_family F cf k ov) = spec_stage F"
      by (intro ext spec_stage_dom) simp
    with Inr w show ?thesis
      using Cons.IH [of "upd_family F cf k ov"]
      by (simp add: spec_single_op stage_errors_def staged_def List.map_filter_simps)
  qed
qed

lemma dropWhile_less_filter:
  fixes t :: "'a::linorder"
  assumes "sorted_wrt (\<lambda>a b. fst a < fst b) es"
  shows "dropWhile (\<lambda>e. fst e < t) es = filter (\<lambda>e. t \<le> fst e) es"
  using assms
proof (induction es)
  case Nil
  then show ?case by simp
next
  case (Cons e es)
  show ?case
  proof (cases "fst e < t")
    case True
    with Cons show ?thesis by simp
  next
    case False
    with Cons.prems have "\<forall>x\<in>set es. t \<le> fst x" by fastforce
    with False show ?thesis by (simp add: not_less)
  qed
qed

section \<open>Persistence\<close>

text \<open>The operations that may change what a get of \<open>k\<close> in \<open>cf\<close> returns.\<close>

fun writes_key :: "string \<Rightarrow> bytes \<Rightarrow> batch_call \<Rightarrow> bool" where
  "writes_key cf k (BatchPut cf' key v) = (cf' = cf \<and> key = Some k)"
| "writes_key cf k (BatchDelete cf' key) = (cf' = cf \<and> key = Some k)"

fun touches :: "string \<Rightarrow> bytes \<Rightarrow> store_op \<Rightarrow> bool" where
  "touches cf k (OpPut cf' key v) = (cf' = cf \<and> key = Some k)"
| "touches cf k (OpDelete cf' key) = (cf' = cf \<and> key = Some k)"
| "touches cf k (OpWrite cs) = list_ex (writes_key cf k) cs"
| "touches cf k OpClose = True"
| "touches cf k x = False"

lemma apply_writes_other:
  assumes "\<forall>w \<in> set ws. (fst w, fst (snd w)) \<noteq> (cf, k)" and "F cf = Some b"
  shows "\<exists>b'. apply_writes F ws cf = Some b' \<and> b' k = b k"
  using assms
proof (induction ws arbitrary: F b)
  case Nil
  then show ?case by simp
next
  case (Cons w ws)
  obtain cf' k' ov where w: "w = (cf', k', ov)" by (cases w)
  show ?case
  proof (cases "cf' = cf")
    case True
    with Cons.prems w have u: "upd_family F cf' k' ov cf = Some (b(k' := ov))" and k: "k' \<noteq> k"
      by (auto simp: upd_family_same)
    have "\<exists>b'. apply_writes (upd_family F cf' k' ov) ws cf = Some b' \<and> b' k = (b(k' := ov)) k"
      using Cons.prems(1) by (intro Cons.IH u) simp
    with k show ?thesis by (simp add: w)
  next
    case False
    with Cons.prems(2) have u: "upd_family F cf' k' ov cf = Some b" by (simp add: upd_family_other)
    have "\<exists>b'. apply_writes (upd_family F cf' k' ov) ws cf = Some b' \<and> b' k = b k"
      using Cons.prems(1) by (intro Cons.IH u) simp
    then show ?thesis by (simp add: w)
  qed
qed

lemma staged_writes_key:
  "w \<in> set (staged F cs) \<Longrightarrow> (fst w, fst (snd w)) = (cf, k) \<Longrightarrow> list_ex (writes_key cf k) cs"
proof (induction cs)
  case (Cons c cs)
  then show ?case
    by (cases c) (auto simp: staged_def List.map_filter_simps split: option.splits if_splits)
qed (simp add: staged_def List.map_filter_simps)

lemma spec_get_persists_step:
  assumes "fst (spec_exec A (OpGet cf (Some k))) = RBytes v" and "\<not> touches cf k x"
  shows "fst (spec_exec (snd (spec_exec A x)) (OpGet cf (Some k))) = RBytes v"
proof -
  from assms(1) obtain F b where A: "A = AOpen F" and b: "F cf = Some b" "b k = Some v"
    by (auto simp: spec_locate_def split: astore.splits option.splits)
  show ?thesis
  proof (cases x)
    case (OpWrite cs)
    with assms(2) staged_writes_key [of _ F cs cf k]
    have "\<forall>w \<in> set (staged F cs). (fst w, fst (snd w)) \<noteq> (cf, k)" by auto
    from apply_writes_other [of "staged F cs" cf k F b, OF this b(1)] b(2) OpWrite A show ?thesis
      by (auto simp: spec_locate_def)
  next
    case (OpPut cf' key w)
    with assms(2) A b show ?thesis
      by (cases "cf' = cf") (auto simp: spec_locate_def upd_family_same upd_family_other split: option.splits)
  next
    case (OpDelete cf' key)
    with assms(2) A b show ?thesis
      by (cases "cf' = cf") (auto simp: spec_locate_def upd_family_same upd_family_other split: option.splits)
  qed (use assms A b in \<open>auto simp: spec_locate_def split: option.splits\<close>)
qed

lemma spec_get_persists:
  "fst (spec_exec A (OpGet cf (Some k))) = RBytes v \<Longrightarrow> \<not> list_ex (touches cf k) xs \<Longrightarrow>
   fst (spec_exec (snd (run_ops spec_exec A xs)) (OpGet cf (Some k))) = RBytes v"
proof (induction xs arbitrary: A)
  case (Cons x xs)
  from spec_get_persists_step [OF Cons.prems(1), of x] Cons.prems(2) Cons.IH show ?case
    by (simp add: case_prod_beta Let_def del: spec_exec.simps)
qed simp

section \<open>Iterators\<close>

text \<open>
  The \<open>Iterator\<close> interface. \<open>view\<close> gives an iterator's entries, in strictly increasing key
  order, and its position; the position is valid when it is the index of an entry. The laws are
  what both implementations promise: where \<open>Next\<close> and \<open>Prev\<close> lead is only fixed at a valid
  position.
\<close>

definition seek_index :: "(bytes \<times> bytes) list \<Rightarrow> bytes \<Rightarrow> nat" where
  "seek_index es t = length (takeWhile (\<lambda>e. fst e < t) es)"

locale cursor =
  fixes seek :: "'i \<Rightarrow> slice \<Rightarrow> 'i" and first_of :: "'i \<Rightarrow> 'i" and last_of :: "'i \<Rightarrow> 'i"
    and next_of :: "'i \<Rightarrow> 'i" and prev_of :: "'i \<Rightarrow> 'i"
    and valid :: "'i \<Rightarrow> bool" and key :: "'i \<Rightarrow> slice" and val :: "'i \<Rightarrow> slice"
    and entries :: "'i \<Rightarrow> (bytes \<times> bytes) list" and pos :: "'i \<Rightarrow> int"
    and ok :: "'i \<Rightarrow> bool"
  assumes sorted_keys: "ok it \<Longrightarrow> sorted_wrt (<) (map fst (entries it))"
    and valid_iff: "ok it \<Longrightarrow> valid it \<longleftrightarrow> 0 \<le> pos it \<and> pos it < int (length (entries it))"
    and key_at: "ok it \<Longrightarrow> valid it \<Longrightarrow> key it = Some (fst (entries it ! nat (pos it)))"
    and val_at: "ok it \<Longrightarrow> valid it \<Longrightarrow> val it = Some (snd (entries it ! nat (pos it)))"
    and seek_to: "ok it \<Longrightarrow> ok (seek it t) \<and> entries (seek it t) = entries it \<and>
      pos (seek it t) = int (seek_index (entries it) (slice_copy t))"
    and first_to: "ok it \<Longrightarrow> ok (first_of it) \<and> entries (first_of it) = entries it \<and> pos (first_of it) = 0"
    and last_to: "ok it \<Longrightarrow> ok (last_of it) \<and> entries (last_of it) = entries it \<and>
      pos (last_of it) = int (length (entries it)) - 1"
    and next_to: "ok it \<Longrightarrow> valid it \<Longrightarrow> ok (next_of it) \<and> entries (next_of it) = entries it \<and>
      pos (next_of it) = pos it + 1"
    and prev_to: "ok it \<Longrightarrow> valid it \<Longrightarrow> ok (prev_of it) \<and> entries (prev_of it) = entries it \<and>
      pos (prev_of it) = pos it - 1"
begin

text \<open>The forward loop ends, and has read the entries from the position on.\<close>

lemma collect_forward:
  assumes "ok it" and "0 \<le> pos it" and "pos it \<le> int (length (entries it))"
  shows "collect valid key val next_of acc it = Some (acc @ drop (nat (pos it)) (entries it))"
  using assms
proof (induction "length (entries it) - nat (pos it)" arbitrary: it acc)
  case 0
  then have "\<not> valid it" and "length (entries it) \<le> nat (pos it)"
    by (auto simp: valid_iff)
  then show ?case by (subst collect.simps) simp
next
  case (Suc n)
  then have v: "valid it" and lt: "nat (pos it) < length (entries it)"
    by (auto simp: valid_iff)
  from next_to [OF Suc.prems(1) v] Suc.prems(2)
  have st: "ok (next_of it)" "entries (next_of it) = entries it" "nat (pos (next_of it)) = Suc (nat (pos it))"
    "0 \<le> pos (next_of it)" "pos (next_of it) \<le> int (length (entries (next_of it)))"
    using lt by auto
  have "collect valid key val next_of (acc @ [entries it ! nat (pos it)]) (next_of it) =
      Some ((acc @ [entries it ! nat (pos it)]) @ drop (nat (pos (next_of it))) (entries (next_of it)))"
    using Suc(2) st by (intro Suc(1)) simp_all
  then show ?case
    using v lt st key_at [OF Suc.prems(1) v] val_at [OF Suc.prems(1) v]
    by (subst collect.simps) (simp add: Cons_nth_drop_Suc)
qed

lemma scan_all: "ok it \<Longrightarrow> collect valid key val next_of [] (first_of it) = Some (entries it)"
  using first_to [of it] collect_forward [of "first_of it" "[]"] by simp

text \<open>From the last entry backwards, the loop reads the entries in reverse.\<close>

lemma collect_backward:
  assumes "ok it" and "-1 \<le> pos it" and "pos it < int (length (entries it))"
  shows "collect valid key val prev_of acc it = Some (acc @ rev (take (nat (pos it + 1)) (entries it)))"
  using assms
proof (induction "nat (pos it + 1)" arbitrary: it acc)
  case 0
  then have "\<not> valid it" by (auto simp: valid_iff)
  with 0 show ?case by (subst collect.simps) simp
next
  case (Suc n)
  then have v: "valid it" and p: "nat (pos it) = n" and lt: "n < length (entries it)"
    by (auto simp: valid_iff)
  from prev_to [OF Suc.prems(1) v]
  have st: "ok (prev_of it)" "entries (prev_of it) = entries it" "nat (pos (prev_of it) + 1) = n"
    "-1 \<le> pos (prev_of it)" "pos (prev_of it) < int (length (entries (prev_of it)))"
    using p v Suc.prems valid_iff [OF Suc.prems(1)] by auto
  have "collect valid key val prev_of (acc @ [entries it ! n]) (prev_of it) =
      Some ((acc @ [entries it ! n]) @ rev (take (nat (pos (prev_of it) + 1)) (entries (prev_of it))))"
    using st by (intro Suc(1)) simp_all
  then show ?case
    using v p lt st Suc(2) [symmetric] key_at [OF Suc.prems(1) v] val_at [OF Suc.prems(1) v]
    by (subst collect.simps) (simp add: take_Suc_conv_app_nth)
qed

lemma scan_all_backward:
  "ok it \<Longrightarrow> collect valid key val prev_of [] (last_of it) = Some (rev (entries it))"
  using last_to [of it] collect_backward [of "last_of it" "[]"] by simp

text \<open>After \<open>Seek(t)\<close> the loop reads exactly the entries with keys from \<open>t\<close> on.\<close>

lemma scan_from:
  assumes "ok it"
  shows "collect valid key val next_of [] (seek it t) =
    Some (filter (\<lambda>e. slice_copy t \<le> fst e) (entries it))"
proof -
  let ?es = "entries it" and ?lt = "\<lambda>e. fst e < slice_copy t"
  have "sorted_wrt (\<lambda>a b. fst a < fst b) ?es"
    using sorted_keys [OF assms] by (simp add: sorted_wrt_map)
  then have "dropWhile ?lt ?es = filter (\<lambda>e. slice_copy t \<le> fst e) ?es"
    by (rule dropWhile_less_filter)
  moreover have "collect valid key val next_of [] (seek it t) = Some (drop (seek_index ?es (slice_copy t)) ?es)"
    using seek_to [OF assms, of t] collect_forward [of "seek it t" "[]"]
    by (simp add: seek_index_def length_takeWhile_le)
  ultimately show ?thesis
    by (simp add: seek_index_def dropWhile_eq_drop)
qed

end

section \<open>Stores\<close>

text \<open>
  An implementation of \<open>Store\<close>, with its batches and iterators, seen through the operations of a
  client. Its laws are those of \<open>simulation\<close> against the abstract store; what a client may rely
  on follows once, here.
\<close>

subsection \<open>The types of results\<close>

text \<open>
  What an operation may return: a value of its own kind, or one of the errors of \<open>db.go\<close> that apply
  to it; a batch reports one entry per staging call.
\<close>

definition errors_of :: "store_op \<Rightarrow> db_error set" where
  "errors_of x =
     (case x of
        OpGet cf key \<Rightarrow> {ErrClosed, ErrNilKey, ErrColumnFamilyNotFound cf, ErrKeyNotFound}
      | OpPut cf key v \<Rightarrow> {ErrClosed, ErrNilKey, ErrColumnFamilyNotFound cf}
      | OpDelete cf key \<Rightarrow> {ErrClosed, ErrNilKey, ErrColumnFamilyNotFound cf}
      | OpHas cf key \<Rightarrow> {ErrClosed, ErrNilKey, ErrColumnFamilyNotFound cf}
      | OpScan cf \<Rightarrow> {ErrClosed, ErrColumnFamilyNotFound cf}
      | _ \<Rightarrow> {ErrClosed})"

fun call_error_typed :: "batch_call \<Rightarrow> db_error option \<Rightarrow> bool" where
  "call_error_typed (BatchPut cf key v) e = (e \<in> {None, Some ErrNilKey, Some (ErrColumnFamilyNotFound cf)})"
| "call_error_typed (BatchDelete cf key) e = (e \<in> {None, Some ErrNilKey, Some (ErrColumnFamilyNotFound cf)})"

definition value_typed :: "store_op \<Rightarrow> store_result \<Rightarrow> bool" where
  "value_typed x r =
     (case x of
        OpGet cf key \<Rightarrow> (\<exists>v. r = RBytes v)
      | OpHas cf key \<Rightarrow> (\<exists>b. r = RBool b)
      | OpScan cf \<Rightarrow> (\<exists>es. r = REntries es)
      | OpWrite cs \<Rightarrow> (\<exists>errs. r = RBatch errs \<and> list_all2 call_error_typed cs errs)
      | _ \<Rightarrow> r = ROk)"

definition result_typed :: "store_op \<Rightarrow> store_result \<Rightarrow> bool" where
  "result_typed x r \<longleftrightarrow> value_typed x r \<or> (\<exists>e \<in> errors_of x. r = RErr e)"

lemma stage_error_typed: "call_error_typed c (case spec_stage F c of Inl e \<Rightarrow> Some e | Inr w \<Rightarrow> None)"
  by (cases c) (auto split: option.splits)

lemma spec_typed: "result_typed x (fst (spec_exec A x))"
  by (cases x)
     (auto simp: result_typed_def value_typed_def errors_of_def spec_locate_def stage_errors_def
        list.rel_map stage_error_typed intro!: list.rel_refl split: astore.splits option.splits)

lemma spec_run_typed: "list_all2 result_typed xs (fst (run_ops spec_exec A xs))"
  by (induction xs arbitrary: A) (simp_all add: Let_def case_prod_beta spec_typed del: spec_exec.simps)

locale kv_store = simulation exec spec_exec abs inv
  for exec :: "'s \<Rightarrow> store_op \<Rightarrow> store_result \<times> 's" and abs :: "'s \<Rightarrow> astore" and inv :: "'s \<Rightarrow> bool"
begin

lemma get_after_put:
  assumes "inv s" and "fst (exec s (OpPut cf (Some k) v)) = ROk"
  shows "fst (exec (snd (exec s (OpPut cf (Some k) v))) (OpGet cf (Some k))) = RBytes (slice_copy v)"
  using assms
  by (auto simp: exec_result exec_abs exec_inv spec_locate_def upd_family_same split: astore.splits option.splits)

lemma get_after_delete:
  assumes "inv s" and "fst (exec s (OpDelete cf (Some k))) = ROk"
  shows "fst (exec (snd (exec s (OpDelete cf (Some k)))) (OpGet cf (Some k))) = RErr ErrKeyNotFound"
  using assms
  by (auto simp: exec_result exec_abs exec_inv spec_locate_def upd_family_same split: astore.splits option.splits)

lemma get_after_single_op_other:
  assumes "inv s" and "(cf', k') \<noteq> (cf, k)" and "c = BatchPut cf (Some k) v \<or> c = BatchDelete cf (Some k)"
  shows "fst (exec (snd (exec s (single_op c))) (OpGet cf' (Some k'))) = fst (exec s (OpGet cf' (Some k')))"
  using assms
  by (cases "cf' = cf"; cases "abs s")
     (auto simp: exec_result exec_abs exec_inv spec_locate_def upd_family_same upd_family_other
       split: option.splits)

text \<open>A stored value stays until an operation writes its key, or the store is closed.\<close>

lemma get_persists:
  assumes "inv s" and "fst (exec s (OpGet cf (Some k))) = RBytes v" and "\<not> list_ex (touches cf k) xs"
  shows "fst (exec (snd (run_ops exec s xs)) (OpGet cf (Some k))) = RBytes v"
  using assms run_abs [OF assms(1)] run_inv [OF assms(1)]
  by (simp add: exec_result spec_get_persists del: spec_exec.simps)

lemma has_iff_get:
  assumes "inv s"
  shows "fst (exec s (OpHas cf key)) =
    (case fst (exec s (OpGet cf key)) of
       RBytes _ \<Rightarrow> RBool True
     | RErr e \<Rightarrow> if e = ErrKeyNotFound then RBool False else RErr e
     | r \<Rightarrow> r)"
  using assms
  by (auto simp: exec_result spec_locate_def split: astore.splits option.splits)

lemma closed_forever:
  assumes "inv s" and "fst (exec s OpClose) = ROk"
  shows "fst (run_ops exec (snd (exec s OpClose)) xs) = replicate (length xs) (RErr ErrClosed)"
  using assms
  by (auto simp: run_results exec_result exec_abs exec_inv run_spec_closed split: astore.splits)

lemma write_as_sequence:
  assumes "inv s" and "fst (exec s (OpWrite cs)) = RBatch errs"
  shows "abs (snd (exec s (OpWrite cs))) = abs (snd (run_ops exec s (map single_op cs)))"
    and "fst (run_ops exec s (map single_op cs)) = map result_of errs"
  using assms
  by (auto simp: run_results run_abs exec_result exec_abs spec_write_sequential split: astore.splits)

lemma scan_sees_gets:
  assumes "inv s" and "fst (exec s (OpScan cf)) = REntries es" and "\<And>F b. abs s = AOpen F \<Longrightarrow> F cf = Some b \<Longrightarrow> finite (dom b)"
  shows "fst (exec s (OpGet cf (Some k))) = (case map_of es k of None \<Rightarrow> RErr ErrKeyNotFound | Some v \<Rightarrow> RBytes v)"
    and "sorted (map fst es)" and "distinct (map fst es)"
proof -
  from assms obtain F b where ab: "abs s = AOpen F" "F cf = Some b" and es: "es = sorted_entries b"
    by (auto simp: exec_result split: astore.splits option.splits)
  with assms(3) have fin: "finite (dom b)" by blast
  show "fst (exec s (OpGet cf (Some k))) = (case map_of es k of None \<Rightarrow> RErr ErrKeyNotFound | Some v \<Rightarrow> RBytes v)"
    using assms(1) ab by (simp add: exec_result spec_locate_def es map_of_sorted_entries [OF fin] split: option.splits)
  show "sorted (map fst es)" "distinct (map fst es)"
    by (simp_all add: es sorted_entries_keys [OF fin])
qed

text \<open>Every result is of its operation's type.\<close>

lemma results_typed:
  assumes "inv s"
  shows "list_all2 result_typed xs (fst (run_ops exec s xs))"
  by (simp add: run_results [OF assms] spec_run_typed)

end

end
