(* ===== verification/Mock_Iterator.thy ===== *)
theory Mock_Iterator
  imports Store_Spec
begin

text \<open>
  The in-memory iterator of \<open>db/mock.go\<close> (lines 299 to 347): a sorted snapshot of one family's
  entries and a position that may run off either end. It implements \<open>cursor\<close>.
\<close>

type_synonym mock_entry = "bytes \<times> bytes"

record mock_iterator =
  it_entries :: "mock_entry list"
  it_pos :: int

definition mock_it_Valid :: "mock_iterator \<Rightarrow> bool" where
  "mock_it_Valid it \<longleftrightarrow> it_pos it \<ge> 0 \<and> it_pos it < int (length (it_entries it))"

definition mock_it_Seek :: "mock_iterator \<Rightarrow> slice \<Rightarrow> mock_iterator" where
  "mock_it_Seek it target =
     it\<lparr>it_pos := int (sort_search (length (it_entries it))
                         (\<lambda>i. fst (it_entries it ! i) \<ge> slice_copy target))\<rparr>"

definition mock_it_SeekToFirst :: "mock_iterator \<Rightarrow> mock_iterator" where
  "mock_it_SeekToFirst it = it\<lparr>it_pos := 0\<rparr>"

definition mock_it_SeekToLast :: "mock_iterator \<Rightarrow> mock_iterator" where
  "mock_it_SeekToLast it = it\<lparr>it_pos := int (length (it_entries it)) - 1\<rparr>"

definition mock_it_Next :: "mock_iterator \<Rightarrow> mock_iterator" where
  "mock_it_Next it = it\<lparr>it_pos := it_pos it + 1\<rparr>"

definition mock_it_Prev :: "mock_iterator \<Rightarrow> mock_iterator" where
  "mock_it_Prev it = it\<lparr>it_pos := it_pos it - 1\<rparr>"

definition mock_it_Key :: "mock_iterator \<Rightarrow> slice" where
  "mock_it_Key it =
     (if \<not> mock_it_Valid it then None else Some (fst (it_entries it ! nat (it_pos it))))"

definition mock_it_Value :: "mock_iterator \<Rightarrow> slice" where
  "mock_it_Value it =
     (if \<not> mock_it_Valid it then None else Some (snd (it_entries it ! nat (it_pos it))))"

definition mock_it_Err :: "mock_iterator \<Rightarrow> db_error option" where
  "mock_it_Err it = None"

lemmas mock_it_defs = mock_it_Valid_def mock_it_SeekToFirst_def mock_it_SeekToLast_def
  mock_it_Next_def mock_it_Prev_def mock_it_Key_def mock_it_Value_def

text \<open>The invariant: the snapshot is in strictly increasing key order.\<close>

definition mock_it_ok :: "mock_iterator \<Rightarrow> bool" where
  "mock_it_ok it \<longleftrightarrow> sorted_wrt (<) (map fst (it_entries it))"

text \<open>On a sorted snapshot the binary search finds the first key not below the target.\<close>

lemma sort_search_seek_index:
  assumes "sorted_wrt (<) (map fst es)"
  shows "sort_search (length es) (\<lambda>i. t \<le> fst (es ! i)) = seek_index es t"
proof -
  let ?r = "sort_search (length es) (\<lambda>i. t \<le> fst (es ! i))"
  have mono: "t \<le> fst (es ! b)" if "a \<le> b" "b < length es" "t \<le> fst (es ! a)" for a b
  proof (cases "a = b")
    case False
    with that assms have "map fst es ! a < map fst es ! b"
      by (intro sorted_wrt_nth_less [of "(<)"]) simp_all
    with that show ?thesis by simp
  qed (use that in simp)
  have s: "?r \<le> length es" "k < ?r \<Longrightarrow> \<not> t \<le> fst (es ! k)"
    "?r \<le> k \<Longrightarrow> k < length es \<Longrightarrow> t \<le> fst (es ! k)" for k
    using sort_search_spec [of "length es" "\<lambda>i. t \<le> fst (es ! i)"] mono by blast+
  have "?r = length (takeWhile (\<lambda>e. fst e < t) es)"
  proof (rule antisym)
    show "?r \<le> length (takeWhile (\<lambda>e. fst e < t) es)"
    proof (rule ccontr)
      assume "\<not> ?r \<le> length (takeWhile (\<lambda>e. fst e < t) es)"
      then have lt: "length (takeWhile (\<lambda>e. fst e < t) es) < ?r" by simp
      with s(1) have "length (takeWhile (\<lambda>e. fst e < t) es) < length es" by linarith
      then have "\<not> fst (es ! length (takeWhile (\<lambda>e. fst e < t) es)) < t"
        by (rule nth_length_takeWhile)
      with s(2) [OF lt] show False by (simp add: not_less)
    qed
    show "length (takeWhile (\<lambda>e. fst e < t) es) \<le> ?r"
    proof (rule ccontr)
      assume "\<not> length (takeWhile (\<lambda>e. fst e < t) es) \<le> ?r"
      then have lt: "?r < length (takeWhile (\<lambda>e. fst e < t) es)" by simp
      then have "fst (es ! ?r) < t"
        using nth_mem [OF lt] by (auto simp: takeWhile_nth dest: set_takeWhileD)
      moreover have "?r < length es"
        using lt length_takeWhile_le [of "\<lambda>e. fst e < t" es] by linarith
      ultimately show False
        using s(3) [of ?r] by simp
    qed
  qed
  then show ?thesis by (simp add: seek_index_def)
qed

interpretation mock_it: cursor mock_it_Seek mock_it_SeekToFirst mock_it_SeekToLast
  mock_it_Next mock_it_Prev mock_it_Valid mock_it_Key mock_it_Value it_entries it_pos mock_it_ok
  by unfold_locales
    (auto simp: mock_it_ok_def mock_it_defs mock_it_Seek_def sort_search_seek_index)

end
