(* ===== verification/Mock_Store.thy ===== *)
theory Mock_Store
  imports Mock_Iterator
begin

text \<open>
  The in-memory store of \<open>db/mock.go\<close>: \<open>MockStore\<close> and its batches. Every method takes the
  store's lock for its whole body, so a method is one atomic operation on the state. The two
  levels of Go maps are association lists with distinct keys, whose order stands for the order
  in which \<open>range\<close> happens to visit a map. A nil map reads as an empty one; writing to a nil
  map panics, and \<open>mock_commit_ops\<close> has that branch.
\<close>

section \<open>State\<close>

type_synonym bucket = "(string \<times> bytes) list"

record mock_store =
  ms_data :: "(string \<times> bucket) list"
  ms_closed :: bool

definition NewMockStore :: "string list \<Rightarrow> mock_store" where
  "NewMockStore cfs =
     \<lparr>ms_data = fold (\<lambda>cf d. if cf \<noteq> DefaultColumnFamily then AList.update cf [] d else d) cfs
                 [(DefaultColumnFamily, [])],
      ms_closed = False\<rparr>"

section \<open>Store operations\<close>

definition mock_Get :: "mock_store \<Rightarrow> string \<Rightarrow> slice \<Rightarrow> db_error + bytes" where
  "mock_Get m cf key =
     (if ms_closed m then Inl ErrClosed
      else case key of
        None \<Rightarrow> Inl ErrNilKey
      | Some k \<Rightarrow>
          (case map_of (ms_data m) cf of
             None \<Rightarrow> Inl (ErrColumnFamilyNotFound cf)
           | Some bucket \<Rightarrow>
               (case map_of bucket (string_of_bytes k) of
                  None \<Rightarrow> Inl ErrKeyNotFound
                | Some v \<Rightarrow> Inr v)))"

definition mock_Put :: "mock_store \<Rightarrow> string \<Rightarrow> slice \<Rightarrow> slice \<Rightarrow> db_error option \<times> mock_store" where
  "mock_Put m cf key val =
     (if ms_closed m then (Some ErrClosed, m)
      else case key of
        None \<Rightarrow> (Some ErrNilKey, m)
      | Some k \<Rightarrow>
          (case map_of (ms_data m) cf of
             None \<Rightarrow> (Some (ErrColumnFamilyNotFound cf), m)
           | Some bucket \<Rightarrow>
               (None, m\<lparr>ms_data := AList.update cf
                          (AList.update (string_of_bytes k) (slice_copy val) bucket) (ms_data m)\<rparr>)))"

definition mock_Delete :: "mock_store \<Rightarrow> string \<Rightarrow> slice \<Rightarrow> db_error option \<times> mock_store" where
  "mock_Delete m cf key =
     (if ms_closed m then (Some ErrClosed, m)
      else case key of
        None \<Rightarrow> (Some ErrNilKey, m)
      | Some k \<Rightarrow>
          (case map_of (ms_data m) cf of
             None \<Rightarrow> (Some (ErrColumnFamilyNotFound cf), m)
           | Some bucket \<Rightarrow>
               (None, m\<lparr>ms_data := AList.update cf
                          (AList.delete (string_of_bytes k) bucket) (ms_data m)\<rparr>)))"

definition mock_Has :: "mock_store \<Rightarrow> string \<Rightarrow> slice \<Rightarrow> db_error + bool" where
  "mock_Has m cf key =
     (if ms_closed m then Inl ErrClosed
      else case key of
        None \<Rightarrow> Inl ErrNilKey
      | Some k \<Rightarrow>
          (case map_of (ms_data m) cf of
             None \<Rightarrow> Inl (ErrColumnFamilyNotFound cf)
           | Some bucket \<Rightarrow> Inr (map_of bucket (string_of_bytes k) \<noteq> None)))"

text \<open>
  The snapshot: collect the keys in map order, sort them, copy each value. Reading a missing key
  gives the nil slice in Go, whose copy is empty.
\<close>

definition mock_NewIterator :: "mock_store \<Rightarrow> string \<Rightarrow> db_error + mock_iterator" where
  "mock_NewIterator m cf =
     (if ms_closed m then Inl ErrClosed
      else case map_of (ms_data m) cf of
        None \<Rightarrow> Inl (ErrColumnFamilyNotFound cf)
      | Some bucket \<Rightarrow>
          (let keys = sort (map fst bucket)
           in Inr \<lparr>it_entries = map (\<lambda>k. (bytes_of_string k, slice_copy (map_of bucket k))) keys,
                   it_pos = -1\<rparr>))"

definition mock_Flush :: "mock_store \<Rightarrow> db_error option" where
  "mock_Flush m = (if ms_closed m then Some ErrClosed else None)"

definition mock_Close :: "mock_store \<Rightarrow> db_error option \<times> mock_store" where
  "mock_Close m =
     (if ms_closed m then (Some ErrClosed, m)
      else (None, m\<lparr>ms_closed := True, ms_data := []\<rparr>))"

definition mock_Len :: "mock_store \<Rightarrow> string \<Rightarrow> int" where
  "mock_Len m cf =
     (if ms_closed m then -1
      else case map_of (ms_data m) cf of
        None \<Rightarrow> -1
      | Some bucket \<Rightarrow> int (length bucket))"

definition mock_Reset :: "mock_store \<Rightarrow> mock_store" where
  "mock_Reset m = m\<lparr>ms_data := map (\<lambda>(cf, _). (cf, [])) (ms_data m)\<rparr>"

section \<open>Batches\<close>

record mock_op =
  op_del :: bool
  op_cf :: string
  op_key :: string
  op_value :: bytes

text \<open>A batch points to its store; here the store is passed to the methods that read or write it.\<close>

record mock_batch =
  mb_ops :: "mock_op list"
  mb_closed :: bool

definition mock_NewBatch :: mock_batch where
  "mock_NewBatch = \<lparr>mb_ops = [], mb_closed = False\<rparr>"

definition mock_batch_Put ::
  "mock_store \<Rightarrow> mock_batch \<Rightarrow> string \<Rightarrow> slice \<Rightarrow> slice \<Rightarrow> db_error option \<times> mock_batch" where
  "mock_batch_Put m b cf key val =
     (if mb_closed b then (Some ErrBatchClosed, b)
      else case key of
        None \<Rightarrow> (Some ErrNilKey, b)
      | Some k \<Rightarrow>
          if map_of (ms_data m) cf = None then (Some (ErrColumnFamilyNotFound cf), b)
          else (None, b\<lparr>mb_ops := mb_ops b @
                 [\<lparr>op_del = False, op_cf = cf, op_key = string_of_bytes k, op_value = slice_copy val\<rparr>]\<rparr>))"

definition mock_batch_Delete ::
  "mock_store \<Rightarrow> mock_batch \<Rightarrow> string \<Rightarrow> slice \<Rightarrow> db_error option \<times> mock_batch" where
  "mock_batch_Delete m b cf key =
     (if mb_closed b then (Some ErrBatchClosed, b)
      else case key of
        None \<Rightarrow> (Some ErrNilKey, b)
      | Some k \<Rightarrow>
          if map_of (ms_data m) cf = None then (Some (ErrColumnFamilyNotFound cf), b)
          else (None, b\<lparr>mb_ops := mb_ops b @
                 [\<lparr>op_del = True, op_cf = cf, op_key = string_of_bytes k, op_value = []\<rparr>]\<rparr>))"

definition mock_batch_Count :: "mock_batch \<Rightarrow> int" where
  "mock_batch_Count b = int (length (mb_ops b))"

fun mock_commit_ops :: "(string \<times> bucket) list \<Rightarrow> mock_op list \<Rightarrow> (string \<times> bucket) list outcome" where
  "mock_commit_ops d [] = Next d"
| "mock_commit_ops d (x # xs) =
     (if op_del x then
        (case map_of d (op_cf x) of
           None \<Rightarrow> mock_commit_ops d xs
         | Some bucket \<Rightarrow>
             mock_commit_ops (AList.update (op_cf x) (AList.delete (op_key x) bucket) d) xs)
      else
        (case map_of d (op_cf x) of
           None \<Rightarrow> Panic ''assignment to entry in nil map''
         | Some bucket \<Rightarrow>
             mock_commit_ops
               (AList.update (op_cf x) (AList.update (op_key x) (op_value x) bucket) d) xs))"

definition mock_batch_Commit :: "mock_batch \<Rightarrow> mock_store \<Rightarrow> (db_error option \<times> mock_store) outcome" where
  "mock_batch_Commit b m =
     (if mb_closed b then Next (Some ErrBatchClosed, m)
      else if ms_closed m then Next (Some ErrClosed, m)
      else case mock_commit_ops (ms_data m) (mb_ops b) of
        Next d \<Rightarrow> Next (None, m\<lparr>ms_data := d\<rparr>)
      | Panic s \<Rightarrow> Panic s
      | Blocked \<Rightarrow> Blocked)"

definition mock_batch_Close :: "mock_batch \<Rightarrow> mock_batch" where
  "mock_batch_Close b = b\<lparr>mb_closed := True, mb_ops := []\<rparr>"

section \<open>The operations of a client\<close>

fun mock_stage :: "mock_store \<Rightarrow> mock_batch \<Rightarrow> batch_call \<Rightarrow> db_error option \<times> mock_batch" where
  "mock_stage m b (BatchPut cf key v) = mock_batch_Put m b cf key v"
| "mock_stage m b (BatchDelete cf key) = mock_batch_Delete m b cf key"

definition mock_write :: "mock_store \<Rightarrow> batch_call list \<Rightarrow> store_result \<times> mock_store" where
  "mock_write m cs =
     (let (errs, b) = run_ops (mock_stage m) mock_NewBatch cs
      in case mock_batch_Commit b m of
           Next (None, m') \<Rightarrow> (RBatch errs, m')
         | Next (Some e, m') \<Rightarrow> (RErr e, m')
         | Panic s \<Rightarrow> (RPanic s, m)
         | Blocked \<Rightarrow> (RNoReturn, m))"

definition mock_scan :: "mock_store \<Rightarrow> string \<Rightarrow> store_result" where
  "mock_scan m cf =
     (case mock_NewIterator m cf of
        Inl e \<Rightarrow> RErr e
      | Inr it \<Rightarrow>
          (case collect mock_it_Valid mock_it_Key mock_it_Value mock_it_Next [] (mock_it_SeekToFirst it) of
             None \<Rightarrow> RNoReturn
           | Some es \<Rightarrow> REntries es))"

fun mock_exec :: "mock_store \<Rightarrow> store_op \<Rightarrow> store_result \<times> mock_store" where
  "mock_exec m (OpGet cf key) = (case mock_Get m cf key of Inl e \<Rightarrow> RErr e | Inr v \<Rightarrow> RBytes v, m)"
| "mock_exec m (OpPut cf key v) = map_prod result_of id (mock_Put m cf key v)"
| "mock_exec m (OpDelete cf key) = map_prod result_of id (mock_Delete m cf key)"
| "mock_exec m (OpHas cf key) = (case mock_Has m cf key of Inl e \<Rightarrow> RErr e | Inr b \<Rightarrow> RBool b, m)"
| "mock_exec m (OpWrite cs) = mock_write m cs"
| "mock_exec m (OpScan cf) = (mock_scan m cf, m)"
| "mock_exec m OpFlush = (result_of (mock_Flush m), m)"
| "mock_exec m OpClose = map_prod result_of id (mock_Close m)"

section \<open>Invariant and abstraction\<close>

text \<open>Go maps have one entry per key.\<close>

definition mock_wf :: "mock_store \<Rightarrow> bool" where
  "mock_wf m \<longleftrightarrow> distinct (map fst (ms_data m)) \<and>
     (\<forall>(cf, bucket) \<in> set (ms_data m). distinct (map fst bucket))"

definition bucket_abs :: "bucket \<Rightarrow> bytes \<Rightarrow> bytes option" where
  "bucket_abs bucket = (\<lambda>k. map_of bucket (string_of_bytes k))"

definition data_abs :: "(string \<times> bucket) list \<Rightarrow> families" where
  "data_abs d = (\<lambda>cf. map_option bucket_abs (map_of d cf))"

definition mock_abs :: "mock_store \<Rightarrow> astore" where
  "mock_abs m = (if ms_closed m then AClosed else AOpen (data_abs (ms_data m)))"


section \<open>Refinement of the contract\<close>

lemma data_abs_None [simp]: "data_abs d cf = None \<longleftrightarrow> map_of d cf = None"
  by (simp add: data_abs_def)

lemma data_abs_Some: "map_of d cf = Some b \<Longrightarrow> data_abs d cf = Some (bucket_abs b)"
  by (simp add: data_abs_def)

lemma data_abs_eq_Some: "data_abs d cf = Some f \<longleftrightarrow> (\<exists>b. map_of d cf = Some b \<and> f = bucket_abs b)"
  by (auto simp: data_abs_def)

lemma bucket_abs_apply [simp]: "bucket_abs b k = map_of b (string_of_bytes k)"
  by (simp add: bucket_abs_def)

lemma bucket_abs_update:
  "bucket_abs (AList.update (string_of_bytes k) v b) = (bucket_abs b)(k \<mapsto> v)"
  "bucket_abs (AList.delete (string_of_bytes k) b) = (bucket_abs b)(k := None)"
  by (auto simp: fun_eq_iff)

lemma data_abs_update:
  assumes "map_of d cf = Some b"
  shows "data_abs (AList.update cf (AList.update (string_of_bytes k) v b) d) =
      upd_family (data_abs d) cf k (Some v)"
    and "data_abs (AList.update cf (AList.delete (string_of_bytes k) b) d) =
      upd_family (data_abs d) cf k None"
  using assms by (auto simp: fun_eq_iff data_abs_def upd_family_def bucket_abs_update)

lemma wf_bucket: "mock_wf m \<Longrightarrow> map_of (ms_data m) cf = Some b \<Longrightarrow> distinct (map fst b)"
  by (auto simp: mock_wf_def dest: map_of_SomeD)

text \<open>Replacing a bucket by one with distinct keys keeps the maps well formed.\<close>

definition data_wf :: "(string \<times> bucket) list \<Rightarrow> bool" where
  "data_wf d \<longleftrightarrow> distinct (map fst d) \<and> (\<forall>(cf, bucket) \<in> set d. distinct (map fst bucket))"

lemma mock_wf_iff: "mock_wf m \<longleftrightarrow> data_wf (ms_data m)"
  by (simp add: mock_wf_def data_wf_def)

lemma data_wf_update: "data_wf d \<Longrightarrow> distinct (map fst b) \<Longrightarrow> data_wf (AList.update cf b d)"
  using set_update_subset [of cf b d] by (auto simp: data_wf_def)

lemma data_wf_bucket: "data_wf d \<Longrightarrow> map_of d cf = Some b \<Longrightarrow> distinct (map fst b)"
  by (auto simp: data_wf_def dest: map_of_SomeD)

lemma data_wf_put: "data_wf d \<Longrightarrow> map_of d cf = Some b \<Longrightarrow> data_wf (AList.update cf (AList.update k v b) d)"
  by (simp add: data_wf_update data_wf_bucket)

lemma data_wf_delete: "data_wf d \<Longrightarrow> map_of d cf = Some b \<Longrightarrow> data_wf (AList.update cf (AList.delete k b) d)"
  by (simp add: data_wf_update data_wf_bucket)

subsection \<open>Iterators\<close>

lemma snapshot_sorted:
  assumes "distinct (map fst b)"
  shows "sorted_wrt (<) (map fst (map (\<lambda>k. (bytes_of_string k, f k)) (sort (map fst b))))"
proof -
  have "sorted_wrt (<) (sort (map fst b))"
    using assms by (simp add: strict_sorted_iff)
  then show ?thesis by (simp add: sorted_wrt_map comp_def)
qed

lemma snapshot_map_of:
  "map_of (map (\<lambda>k. (bytes_of_string k, slice_copy (map_of b k))) (sort (map fst b))) = bucket_abs b"
proof
  fix k
  have "map_of (map (\<lambda>k. (bytes_of_string k, slice_copy (map_of b k))) ks) (bytes_of_string s) =
      (if s \<in> set ks then Some (slice_copy (map_of b s)) else None)" for ks s
    by (induction ks) auto
  note at = this [of "sort (map fst b)" "string_of_bytes k", unfolded bytes_of_string_of_bytes]
  show "map_of (map (\<lambda>k. (bytes_of_string k, slice_copy (map_of b k))) (sort (map fst b))) k = bucket_abs b k"
  proof (cases "map_of b (string_of_bytes k)")
    case None
    then have "string_of_bytes k \<notin> set (sort (map fst b))"
      by (simp add: map_of_eq_None_iff)
    with None show ?thesis by (simp only: at bucket_abs_apply if_False)
  next
    case (Some v)
    then have "string_of_bytes k \<in> set (sort (map fst b))"
      by (auto dest: map_of_SomeD intro: rev_image_eqI)
    with Some show ?thesis by (simp only: at bucket_abs_apply if_True slice_copy_simps)
  qed
qed

lemma mock_NewIterator_entries:
  assumes "mock_wf m" and "mock_NewIterator m cf = Inr it"
  shows "mock_it_ok it" and "\<not> ms_closed m" and "\<exists>b. map_of (ms_data m) cf = Some b \<and> it_entries it = sorted_entries (bucket_abs b)"
proof -
  from assms(2) obtain b where b: "map_of (ms_data m) cf = Some b" "\<not> ms_closed m"
    and it: "it_entries it = map (\<lambda>k. (bytes_of_string k, slice_copy (map_of b k))) (sort (map fst b))"
    by (auto simp: mock_NewIterator_def Let_def split: if_splits option.splits)
  note d = wf_bucket [OF assms(1) b(1)]
  show "mock_it_ok it" unfolding mock_it_ok_def it by (rule snapshot_sorted [OF d])
  show "\<not> ms_closed m" by (rule b(2))
  show "\<exists>b. map_of (ms_data m) cf = Some b \<and> it_entries it = sorted_entries (bucket_abs b)"
    unfolding it using b(1) sorted_entriesI [OF snapshot_sorted [OF d] snapshot_map_of] by blast
qed

lemma mock_scan_refines:
  assumes "mock_wf m"
  shows "mock_scan m cf = fst (spec_exec (mock_abs m) (OpScan cf))"
proof (cases "mock_NewIterator m cf")
  case (Inl e)
  then show ?thesis
    by (auto simp: mock_scan_def mock_NewIterator_def mock_abs_def data_abs_def Let_def
        split: if_splits option.splits)
next
  case (Inr it)
  note e = mock_NewIterator_entries [OF assms Inr]
  show ?thesis
    using mock_it.scan_all [OF e(1)] e(2,3) Inr
    by (auto simp: mock_scan_def mock_abs_def data_abs_def)
qed

subsection \<open>Batches\<close>

definition op_of :: "write_op \<Rightarrow> mock_op" where
  "op_of w = (case w of (cf, k, ov) \<Rightarrow>
     \<lparr>op_del = (ov = None), op_cf = cf, op_key = string_of_bytes k, op_value = slice_copy ov\<rparr>)"

lemma op_of_simp [simp]:
  "op_of (cf, k, ov) =
     \<lparr>op_del = (ov = None), op_cf = cf, op_key = string_of_bytes k, op_value = slice_copy ov\<rparr>"
  by (simp add: op_of_def)

lemma mock_stage_refines:
  assumes "\<not> mb_closed b"
  shows "mock_stage m b c =
    (case spec_stage (data_abs (ms_data m)) c of
       Inl e \<Rightarrow> (Some e, b)
     | Inr w \<Rightarrow> (None, b\<lparr>mb_ops := mb_ops b @ [op_of w]\<rparr>))"
  using assms
  by (cases c) (auto simp: mock_batch_Put_def mock_batch_Delete_def split: option.splits)

lemma mock_stages_refine:
  assumes "\<not> mb_closed b"
  shows "run_ops (mock_stage m) b cs =
    (stage_errors (data_abs (ms_data m)) cs,
     b\<lparr>mb_ops := mb_ops b @ map op_of (staged (data_abs (ms_data m)) cs)\<rparr>)"
  using assms
  by (induction cs arbitrary: b)
    (auto simp: mock_stage_refines stage_errors_def staged_def List.map_filter_simps split: sum.splits)

text \<open>Committing writes to known families applies them all, and never reaches the panic.\<close>

lemma mock_commit_ops_refines:
  assumes "data_wf d" and "\<forall>w\<in>set ws. map_of d (fst w) \<noteq> None"
  shows "\<exists>d'. mock_commit_ops d (map op_of ws) = Next d' \<and> data_wf d' \<and>
    data_abs d' = apply_writes (data_abs d) ws \<and> dom (map_of d') = dom (map_of d)"
  using assms
proof (induction ws arbitrary: d)
  case Nil
  then show ?case by simp
next
  case (Cons w ws)
  obtain cf k ov where w: "w = (cf, k, ov)" by (cases w)
  with Cons.prems(2) obtain b where b: "map_of d cf = Some b" by auto
  define d1 where "d1 = AList.update cf (case ov of None \<Rightarrow> AList.delete (string_of_bytes k) b
    | Some v \<Rightarrow> AList.update (string_of_bytes k) v b) d"
  have d1: "data_wf d1" "data_abs d1 = upd_family (data_abs d) cf k ov"
    "dom (map_of d1) = dom (map_of d)"
    using Cons.prems(1) b data_wf_bucket [OF Cons.prems(1) b]
    by (auto simp: d1_def data_abs_update intro: data_wf_update split: option.splits)
  moreover have "\<forall>w\<in>set ws. map_of d1 (fst w) \<noteq> None"
    using Cons.prems(2) d1(3) by (metis domIff list.set_intros(2))
  ultimately obtain d' where "mock_commit_ops d1 (map op_of ws) = Next d'" "data_wf d'"
    "data_abs d' = apply_writes (data_abs d1) ws" "dom (map_of d') = dom (map_of d1)"
    using Cons.IH [of d1] by blast
  then show ?case
    using b d1 by (cases ov) (simp_all add: w d1_def)
qed

lemma mock_write_refines:
  assumes "mock_wf m" and "\<not> ms_closed m"
  shows "fst (mock_write m cs) = RBatch (stage_errors (data_abs (ms_data m)) cs)"
    and "mock_abs (snd (mock_write m cs)) =
      AOpen (apply_writes (data_abs (ms_data m)) (staged (data_abs (ms_data m)) cs))"
    and "mock_wf (snd (mock_write m cs))"
proof -
  let ?F = "data_abs (ms_data m)"
  from staged_families [of _ ?F cs]
  have "\<forall>w\<in>set (staged ?F cs). map_of (ms_data m) (fst w) \<noteq> None" by auto
  from mock_commit_ops_refines [OF assms(1) [unfolded mock_wf_iff] this]
  obtain d' where d': "mock_commit_ops (ms_data m) (map op_of (staged ?F cs)) = Next d'"
    "data_wf d'" "data_abs d' = apply_writes ?F (staged ?F cs)" by blast
  have eq: "mock_write m cs = (RBatch (stage_errors ?F cs), m\<lparr>ms_data := d'\<rparr>)"
    using assms(2) d'(1)
    by (simp add: mock_write_def mock_stages_refine mock_NewBatch_def mock_batch_Commit_def)
  from d' assms(2) show "fst (mock_write m cs) = RBatch (stage_errors ?F cs)"
    and "mock_abs (snd (mock_write m cs)) = AOpen (apply_writes ?F (staged ?F cs))"
    and "mock_wf (snd (mock_write m cs))"
    by (simp_all add: eq mock_abs_def mock_wf_iff)
qed

lemma mock_write_closed:
  assumes "ms_closed m"
  shows "mock_write m cs = (RErr ErrClosed, m)"
proof -
  have "mb_closed (snd (run_ops (mock_stage m) b cs)) = mb_closed b" for b
  proof (induction cs arbitrary: b)
    case (Cons c cs)
    have "mb_closed (snd (mock_stage m b c)) = mb_closed b"
      by (cases c) (auto simp: mock_batch_Put_def mock_batch_Delete_def split: option.splits)
    with Cons show ?case by (simp add: case_prod_beta Let_def)
  qed simp
  from this [of mock_NewBatch] assms show ?thesis
    by (auto simp: mock_write_def mock_NewBatch_def mock_batch_Commit_def split: prod.splits)
qed

subsection \<open>The store\<close>

interpretation mock: kv_store mock_exec mock_abs mock_wf
proof unfold_locales
  fix m x
  assume wf: "mock_wf m"
  show "fst (mock_exec m x) = fst (spec_exec (mock_abs m) x)"
    using wf
    by (cases x)
      (auto simp: mock_Get_def mock_Put_def mock_Delete_def mock_Has_def mock_Flush_def mock_Close_def
        mock_abs_def spec_locate_def data_abs_def mock_scan_refines mock_write_refines mock_write_closed
        split: option.splits)
  show "mock_abs (snd (mock_exec m x)) = snd (spec_exec (mock_abs m) x)"
  proof (cases "\<exists>cs. x = OpWrite cs")
    case True
    then show ?thesis
      using wf mock_write_refines(2) [OF wf]
      by (cases "ms_closed m") (auto simp: mock_write_closed mock_abs_def [of m])
  next
    case False
    then show ?thesis
      by (cases x)
        (auto simp: mock_Get_def mock_Put_def mock_Delete_def mock_Has_def mock_Flush_def mock_Close_def
          mock_abs_def spec_locate_def data_abs_update data_abs_eq_Some split: option.splits)
  qed
  show "mock_wf (snd (mock_exec m x))"
    using wf
    by (cases x; cases "ms_closed m")
      (auto simp: mock_Get_def mock_Put_def mock_Delete_def mock_Has_def mock_Flush_def mock_Close_def
        mock_wf_iff mock_write_refines [unfolded mock_wf_iff] mock_write_closed data_wf_def [of "[]"]
        data_wf_put data_wf_delete split: option.splits)
qed

section \<open>A fresh store, Reset, Len\<close>

lemma NewMockStore_data:
  "data_wf d \<Longrightarrow> (\<forall>cf b. map_of d cf = Some b \<longrightarrow> b = []) \<Longrightarrow>
   data_wf (fold (\<lambda>cf d. if cf \<noteq> DefaultColumnFamily then AList.update cf [] d else d) cfs d) \<and>
   map_of (fold (\<lambda>cf d. if cf \<noteq> DefaultColumnFamily then AList.update cf [] d else d) cfs d) =
     (\<lambda>cf. if map_of d cf \<noteq> None \<or> (cf \<in> set cfs \<and> cf \<noteq> DefaultColumnFamily) then Some [] else None)"
proof (induction cfs arbitrary: d)
  case Nil
  then show ?case by (auto simp: fun_eq_iff)
next
  case (Cons c cfs)
  show ?case
  proof (cases "c = DefaultColumnFamily")
    case True
    with Cons show ?thesis by (auto simp: fun_eq_iff)
  next
    case False
    have "data_wf (AList.update c [] d)"
      using Cons.prems(1) by (simp add: data_wf_update)
    moreover have "\<forall>cf b. map_of (AList.update c [] d) cf = Some b \<longrightarrow> b = []"
      using Cons.prems(2) by (auto split: if_splits)
    ultimately show ?thesis
      using Cons.IH [of "AList.update c [] d"] False by (auto simp: fun_eq_iff)
  qed
qed

lemma NewMockStore_ok [simp]:
  "mock_wf (NewMockStore cfs)" "mock_abs (NewMockStore cfs) = AOpen (empty_families cfs)"
proof -
  have base: "data_wf [(DefaultColumnFamily, [])]"
    "\<forall>cf b. map_of [(DefaultColumnFamily, [] :: bucket)] cf = Some b \<longrightarrow> b = []"
    by (simp_all add: data_wf_def)
  note d = NewMockStore_data [OF base, of cfs]
  show "mock_wf (NewMockStore cfs)"
    using d by (simp add: mock_wf_iff NewMockStore_def)
  show "mock_abs (NewMockStore cfs) = AOpen (empty_families cfs)"
    using d by (auto simp: mock_abs_def NewMockStore_def data_abs_def empty_families_def fun_eq_iff)
qed

lemma map_of_map_const: "map_of (map (\<lambda>(k, _). (k, c)) d) k = map_option (\<lambda>_. c) (map_of d k)"
  by (induction d) auto

lemma mock_Reset_abs:
  "mock_abs (mock_Reset m) =
     (case mock_abs m of AClosed \<Rightarrow> AClosed | AOpen F \<Rightarrow> AOpen (\<lambda>cf. map_option (\<lambda>_. Map.empty) (F cf)))"
  by (auto simp: mock_abs_def mock_Reset_def data_abs_def map_of_map_const fun_eq_iff option.map_comp comp_def
      bucket_abs_def)

lemma mock_Reset_wf: "mock_wf m \<Longrightarrow> mock_wf (mock_Reset m)"
proof -
  assume wf: "mock_wf m"
  have "map fst (map (\<lambda>(cf, _). (cf, [] :: bucket)) d) = map fst d" for d :: "(string \<times> bucket) list"
    by (induction d) auto
  with wf show ?thesis
    unfolding mock_wf_def mock_Reset_def by (auto simp del: map_map)
qed

lemma mock_Len_card:
  assumes "mock_wf m" and "mock_abs m = AOpen F" and "F cf = Some b"
  shows "mock_Len m cf = int (card (dom b))"
proof -
  from assms obtain bk where bk: "map_of (ms_data m) cf = Some bk" "b = bucket_abs bk" and o: "\<not> ms_closed m"
    by (auto simp: mock_abs_def data_abs_eq_Some split: if_splits)
  have "dom b = bytes_of_string ` dom (map_of bk)"
    using bk(2) by (auto simp: bucket_abs_def dom_def image_iff) (metis bytes_of_string_of_bytes)
  then have "card (dom b) = card (dom (map_of bk))"
    by (simp add: card_image inj_on_def)
  also have "\<dots> = length bk"
    using wf_bucket [OF assms(1) bk(1)] by (metis dom_map_of_conv_image_fst distinct_card length_map list.set_map)
  finally show ?thesis
    using bk o by (simp add: mock_Len_def)
qed

section \<open>Batches that outlive other operations\<close>

text \<open>
  A batch may be staged, and the store changed or closed by others, in any order before the
  commit. The invariant: an open store still has every family a staged write names.
\<close>

datatype session_op =
    SStore store_op
  | SReset
  | SStage batch_call
  | SCommit
  | SCloseBatch

fun session_step :: "mock_store \<times> mock_batch \<Rightarrow> session_op \<Rightarrow> (mock_store \<times> mock_batch) outcome" where
  "session_step (m, b) (SStore x) = Next (snd (mock_exec m x), b)"
| "session_step (m, b) SReset = Next (mock_Reset m, b)"
| "session_step (m, b) (SStage c) = Next (m, snd (mock_stage m b c))"
| "session_step (m, b) SCommit =
     (case mock_batch_Commit b m of
        Next (_, m') \<Rightarrow> Next (m', b) | Panic s \<Rightarrow> Panic s | Blocked \<Rightarrow> Blocked)"
| "session_step (m, b) SCloseBatch = Next (m, mock_batch_Close b)"

fun session_run :: "mock_store \<times> mock_batch \<Rightarrow> session_op list \<Rightarrow> (mock_store \<times> mock_batch) outcome" where
  "session_run mb [] = Next mb"
| "session_run mb (x # xs) =
     (case session_step mb x of Next mb' \<Rightarrow> session_run mb' xs | Panic s \<Rightarrow> Panic s | Blocked \<Rightarrow> Blocked)"

definition session_ok :: "mock_store \<times> mock_batch \<Rightarrow> bool" where
  "session_ok mb = (case mb of (m, b) \<Rightarrow> mock_wf m \<and>
     (\<exists>ws. mb_ops b = map op_of ws \<and>
       (ms_closed m \<or> (\<forall>w\<in>set ws. map_of (ms_data m) (fst w) \<noteq> None))))"

lemma session_okI:
  assumes "mock_wf m" and "mb_ops b = map op_of ws"
    and "\<And>w. \<not> ms_closed m \<Longrightarrow> w \<in> set ws \<Longrightarrow> map_of (ms_data m) (fst w) \<noteq> None"
  shows "session_ok (m, b)"
  using assms by (auto simp: session_ok_def)

lemma mock_exec_families:
  assumes "mock_wf m" and "\<not> ms_closed (snd (mock_exec m x))"
  shows "\<not> ms_closed m" and "map_of (ms_data (snd (mock_exec m x))) cf = None \<longleftrightarrow> map_of (ms_data m) cf = None"
proof -
  from assms(2) obtain G where G: "mock_abs (snd (mock_exec m x)) = AOpen G"
    "G = data_abs (ms_data (snd (mock_exec m x)))"
    by (simp add: mock_abs_def)
  with mock.exec_abs [OF assms(1), of x] have s: "snd (spec_exec (mock_abs m) x) = AOpen G" by simp
  then have o: "mock_abs m \<noteq> AClosed" by auto
  then show "\<not> ms_closed m" by (auto simp: mock_abs_def)
  with s have "dom G = dom (data_abs (ms_data m))"
    by (intro spec_exec_dom) (simp add: mock_abs_def)
  with G(2) show "map_of (ms_data (snd (mock_exec m x))) cf = None \<longleftrightarrow> map_of (ms_data m) cf = None"
    by (metis data_abs_None domIff)
qed

lemma mock_batch_Commit_ok:
  assumes "session_ok (m, b)"
  shows "\<exists>e m'. mock_batch_Commit b m = Next (e, m') \<and> session_ok (m', b)"
proof (cases "mb_closed b \<or> ms_closed m")
  case True
  with assms show ?thesis by (auto simp: mock_batch_Commit_def)
next
  case False
  from assms False obtain ws where ws: "mb_ops b = map op_of ws" "mock_wf m"
    "\<forall>w\<in>set ws. map_of (ms_data m) (fst w) \<noteq> None" by (auto simp: session_ok_def)
  from mock_commit_ops_refines [OF ws(2) [unfolded mock_wf_iff] ws(3)]
  obtain d' where d': "mock_commit_ops (ms_data m) (mb_ops b) = Next d'" "data_wf d'"
    "dom (map_of d') = dom (map_of (ms_data m))" using ws(1) by auto
  have "session_ok (m\<lparr>ms_data := d'\<rparr>, b)"
  proof (rule session_okI)
    show "mb_ops b = map op_of ws" by (rule ws(1))
    show "mock_wf (m\<lparr>ms_data := d'\<rparr>)" using d'(2) by (simp add: mock_wf_iff)
    fix w
    assume "w \<in> set ws"
    with ws(3) d'(3) show "map_of (ms_data (m\<lparr>ms_data := d'\<rparr>)) (fst w) \<noteq> None"
      by (metis domIff mock_store.select_convs(1) mock_store.surjective mock_store.update_convs(1))
  qed
  with False d'(1) show ?thesis by (simp add: mock_batch_Commit_def)
qed

lemma session_step_ok:
  assumes "session_ok mb"
  shows "\<exists>mb'. session_step mb x = Next mb' \<and> session_ok mb'"
proof -
  obtain m b where mb: "mb = (m, b)" by (cases mb)
  from assms obtain ws where wf: "mock_wf m" and ws: "mb_ops b = map op_of ws"
    "ms_closed m \<or> (\<forall>w\<in>set ws. map_of (ms_data m) (fst w) \<noteq> None)"
    by (auto simp: session_ok_def mb)
  show ?thesis
  proof (cases x)
    case (SStore y)
    have "session_ok (snd (mock_exec m y), b)"
      using mock.exec_inv [OF wf] ws mock_exec_families [OF wf, of y]
      by (intro session_okI [of _ _ ws]) simp_all
    with SStore show ?thesis by (simp add: mb)
  next
    case SReset
    have "session_ok (mock_Reset m, b)"
      using wf ws
      by (intro session_okI [of _ _ ws]) (auto simp: mock_Reset_wf, auto simp: mock_Reset_def map_of_map_const)
    with SReset show ?thesis by (simp add: mb)
  next
    case (SStage c)
    have "session_ok (m, snd (mock_stage m b c))"
    proof (cases "mb_closed b \<or> (\<exists>e. spec_stage (data_abs (ms_data m)) c = Inl e)")
      case True
      then have "snd (mock_stage m b c) = b"
        by (cases "mb_closed b"; cases c)
          (auto simp: mock_batch_Put_def mock_batch_Delete_def split: option.splits if_splits)
      with assms show ?thesis by (simp add: mb)
    next
      case False
      then obtain w where w: "spec_stage (data_abs (ms_data m)) c = Inr w"
        by (cases "spec_stage (data_abs (ms_data m)) c") auto
      then have "map_of (ms_data m) (fst w) \<noteq> None"
        by (cases c) (auto split: option.splits if_splits)
      then show ?thesis
        using False w wf ws by (intro session_okI [of _ _ "ws @ [w]"]) (auto simp: mock_stage_refines)
    qed
    with SStage show ?thesis by (simp add: mb)
  next
    case SCommit
    with mock_batch_Commit_ok [of m b] assms show ?thesis by (auto simp: mb)
  next
    case SCloseBatch
    with wf show ?thesis by (auto simp: mb session_ok_def mock_batch_Close_def)
  qed
qed

lemma session_run_ok: "session_ok mb \<Longrightarrow> \<exists>mb'. session_run mb xs = Next mb' \<and> session_ok mb'"
proof (induction xs arbitrary: mb)
  case Nil
  then show ?case by simp
next
  case (Cons x xs)
  from session_step_ok [OF Cons.prems, of x] show ?case using Cons.IH by auto
qed

end
