(* ===== verification/Pebble_Engine.thy ===== *)
theory Pebble_Engine
  imports Store_Spec
begin

text \<open>
  The storage engine (\<open>github.com/cockroachdb/pebble\<close>) is not part of the repository: it is a
  parameter, a record of the operations that \<open>db/pebble.go\<close> calls. \<open>engine_ok\<close> states the
  documented behaviour the code relies on, with respect to a view of the engine's states; it
  speaks of an engine without I/O failures, and of nothing after the engine is closed. The last
  section gives a small engine that satisfies it, used to show that the hypothesis can hold.
\<close>

datatype pebble_error = PebbleNotFound | PebbleErr string

fun pebble_msg :: "pebble_error \<Rightarrow> string" where
  "pebble_msg PebbleNotFound = ''pebble: not found''"
| "pebble_msg (PebbleErr s) = s"

text \<open>The fields of \<open>pebble.Options\<close> that \<open>Open\<close> sets.\<close>

record pebble_options =
  po_CacheSize :: int
  po_MemTableSize :: "64 word"
  po_MaxOpenFiles :: int
  po_MaxConcurrentCompactions :: int
  po_L0CompactionThreshold :: int
  po_L0StopWritesThreshold :: int
  po_LBaseMaxBytes :: int
  po_WALDir :: string
  po_DisableAutomaticCompactions :: bool

text \<open>
  The engine's interface over its database, batch and iterator types; the \<open>bool\<close> of a write is
  \<open>Sync\<close> (true) or \<open>NoSync\<close>.
\<close>

record ('e, 'b, 'i) engine =
  pb_open :: "string \<Rightarrow> pebble_options \<Rightarrow> pebble_error + 'e"
  pb_get :: "'e \<Rightarrow> bytes \<Rightarrow> pebble_error + bytes"
  pb_set :: "'e \<Rightarrow> bytes \<Rightarrow> slice \<Rightarrow> bool \<Rightarrow> pebble_error option \<times> 'e"
  pb_delete :: "'e \<Rightarrow> bytes \<Rightarrow> bool \<Rightarrow> pebble_error option \<times> 'e"
  pb_flush :: "'e \<Rightarrow> pebble_error option \<times> 'e"
  pb_close :: "'e \<Rightarrow> pebble_error option \<times> 'e"
  pb_new_batch :: "'e \<Rightarrow> 'b"
  pb_batch_set :: "'b \<Rightarrow> bytes \<Rightarrow> slice \<Rightarrow> pebble_error option \<times> 'b"
  pb_batch_delete :: "'b \<Rightarrow> bytes \<Rightarrow> pebble_error option \<times> 'b"
  pb_batch_count :: "'b \<Rightarrow> 32 word"
  pb_batch_commit :: "'b \<Rightarrow> 'e \<Rightarrow> bool \<Rightarrow> pebble_error option \<times> 'b \<times> 'e"
  pb_batch_close :: "'b \<Rightarrow> pebble_error option \<times> 'b"
  pb_new_iter :: "'e \<Rightarrow> bytes \<Rightarrow> bytes \<Rightarrow> pebble_error + 'i"
  pb_seek_ge :: "'i \<Rightarrow> bytes \<Rightarrow> 'i"
  pb_first :: "'i \<Rightarrow> 'i"
  pb_last :: "'i \<Rightarrow> 'i"
  pb_next :: "'i \<Rightarrow> 'i"
  pb_prev :: "'i \<Rightarrow> 'i"
  pb_valid :: "'i \<Rightarrow> bool"
  pb_key :: "'i \<Rightarrow> slice"
  pb_value :: "'i \<Rightarrow> pebble_error + slice"
  pb_error :: "'i \<Rightarrow> pebble_error option"
  pb_iter_close :: "'i \<Rightarrow> pebble_error option \<times> 'i"

text \<open>What an engine's values hold, as far as the documentation speaks of it.\<close>

record ('e, 'b, 'i) engine_view =
  ev_open :: "'e \<Rightarrow> bool"
  ev_map :: "'e \<Rightarrow> bytes \<Rightarrow> bytes option"
  ev_live :: "'b \<Rightarrow> bool"
  ev_writes :: "'b \<Rightarrow> (bytes \<times> bytes option) list"
  ev_entries :: "'i \<Rightarrow> (bytes \<times> bytes) list"
  ev_pos :: "'i \<Rightarrow> int"

definition apply_raw :: "(bytes \<Rightarrow> bytes option) \<Rightarrow> (bytes \<times> bytes option) list \<Rightarrow> bytes \<Rightarrow> bytes option" where
  "apply_raw m ws = foldl (\<lambda>m (k, ov). m(k := ov)) m ws"

definition in_bounds :: "bytes \<Rightarrow> bytes \<Rightarrow> (bytes \<Rightarrow> bytes option) \<Rightarrow> bytes \<Rightarrow> bytes option" where
  "in_bounds lo hi m = (\<lambda>k. if lo \<le> k \<and> k < hi then m k else None)"

section \<open>Documented behaviour\<close>

definition points_ok :: "('e, 'b, 'i) engine \<Rightarrow> ('e, 'b, 'i) engine_view \<Rightarrow> bool" where
  "points_ok E V \<longleftrightarrow> (\<forall>e. ev_open V e \<longrightarrow>
     finite (dom (ev_map V e)) \<and>
     (\<forall>k. pb_get E e k = (case ev_map V e k of None \<Rightarrow> Inl PebbleNotFound | Some v \<Rightarrow> Inr v)) \<and>
     (\<forall>k v s. fst (pb_set E e k v s) = None \<and> ev_open V (snd (pb_set E e k v s)) \<and>
        ev_map V (snd (pb_set E e k v s)) = (ev_map V e)(k \<mapsto> slice_copy v)) \<and>
     (\<forall>k s. fst (pb_delete E e k s) = None \<and> ev_open V (snd (pb_delete E e k s)) \<and>
        ev_map V (snd (pb_delete E e k s)) = (ev_map V e)(k := None)) \<and>
     fst (pb_flush E e) = None \<and> ev_open V (snd (pb_flush E e)) \<and>
     ev_map V (snd (pb_flush E e)) = ev_map V e \<and>
     fst (pb_close E e) = None)"

definition batches_ok :: "('e, 'b, 'i) engine \<Rightarrow> ('e, 'b, 'i) engine_view \<Rightarrow> bool" where
  "batches_ok E V \<longleftrightarrow>
     (\<forall>e. ev_live V (pb_new_batch E e) \<and> ev_writes V (pb_new_batch E e) = []) \<and>
     (\<forall>b. ev_live V b \<longrightarrow>
        pb_batch_count E b = of_nat (length (ev_writes V b)) \<and>
        (\<forall>k v. fst (pb_batch_set E b k v) = None \<and> ev_live V (snd (pb_batch_set E b k v)) \<and>
           ev_writes V (snd (pb_batch_set E b k v)) = ev_writes V b @ [(k, Some (slice_copy v))]) \<and>
        (\<forall>k. fst (pb_batch_delete E b k) = None \<and> ev_live V (snd (pb_batch_delete E b k)) \<and>
           ev_writes V (snd (pb_batch_delete E b k)) = ev_writes V b @ [(k, None)]) \<and>
        (\<forall>e s. ev_open V e \<longrightarrow>
           fst (pb_batch_commit E b e s) = None \<and>
           ev_open V (snd (snd (pb_batch_commit E b e s))) \<and>
           ev_map V (snd (snd (pb_batch_commit E b e s))) = apply_raw (ev_map V e) (ev_writes V b)))"

definition iters_ok :: "('e, 'b, 'i) engine \<Rightarrow> ('e, 'b, 'i) engine_view \<Rightarrow> bool" where
  "iters_ok E V \<longleftrightarrow>
     (\<forall>e lo hi. ev_open V e \<longrightarrow> (\<exists>it. pb_new_iter E e lo hi = Inr it \<and>
        ev_entries V it = sorted_entries (in_bounds lo hi (ev_map V e)))) \<and>
     (\<forall>it. let es = ev_entries V it; p = ev_pos V it in
        pb_valid E it = (0 \<le> p \<and> p < int (length es)) \<and>
        (pb_valid E it \<longrightarrow>
           pb_key E it = Some (fst (es ! nat p)) \<and> pb_value E it = Inr (Some (snd (es ! nat p))) \<and>
           ev_entries V (pb_next E it) = es \<and> ev_pos V (pb_next E it) = p + 1 \<and>
           ev_entries V (pb_prev E it) = es \<and> ev_pos V (pb_prev E it) = p - 1) \<and>
        (\<forall>k. ev_entries V (pb_seek_ge E it k) = es \<and> ev_pos V (pb_seek_ge E it k) = int (seek_index es k)) \<and>
        ev_entries V (pb_first E it) = es \<and> ev_pos V (pb_first E it) = 0 \<and>
        ev_entries V (pb_last E it) = es \<and> ev_pos V (pb_last E it) = int (length es) - 1)"

definition engine_ok :: "('e, 'b, 'i) engine \<Rightarrow> ('e, 'b, 'i) engine_view \<Rightarrow> bool" where
  "engine_ok E V \<longleftrightarrow> points_ok E V \<and> batches_ok E V \<and> iters_ok E V"

lemma apply_raw_simps [simp]:
  "apply_raw m [] = m"
  "apply_raw m ((k, ov) # ws) = apply_raw (m(k := ov)) ws"
  "apply_raw m (ws @ us) = apply_raw (apply_raw m ws) us"
  by (simp_all add: apply_raw_def)

lemma engine_okD:
  assumes "engine_ok E V"
  shows "points_ok E V" and "batches_ok E V" and "iters_ok E V"
  using assms by (simp_all add: engine_ok_def)

text \<open>The laws as rewrite rules, once an engine is fixed.\<close>

lemma points_okD:
  assumes "engine_ok E V" and "ev_open V e"
  shows "finite (dom (ev_map V e))"
    and "pb_get E e k = (case ev_map V e k of None \<Rightarrow> Inl PebbleNotFound | Some v \<Rightarrow> Inr v)"
    and "fst (pb_set E e k v s) = None" and "ev_open V (snd (pb_set E e k v s))"
    and "ev_map V (snd (pb_set E e k v s)) = (ev_map V e)(k \<mapsto> slice_copy v)"
    and "fst (pb_delete E e k s) = None" and "ev_open V (snd (pb_delete E e k s))"
    and "ev_map V (snd (pb_delete E e k s)) = (ev_map V e)(k := None)"
    and "fst (pb_flush E e) = None" and "ev_open V (snd (pb_flush E e))"
    and "ev_map V (snd (pb_flush E e)) = ev_map V e" and "fst (pb_close E e) = None"
  using assms(2) engine_okD(1) [OF assms(1)] by (simp_all add: points_ok_def)

lemma batches_okD:
  assumes "engine_ok E V"
  shows "ev_live V (pb_new_batch E e)" and "ev_writes V (pb_new_batch E e) = []"
    and "ev_live V b \<Longrightarrow> pb_batch_count E b = of_nat (length (ev_writes V b))"
    and "ev_live V b \<Longrightarrow> fst (pb_batch_set E b k v) = None"
    and "ev_live V b \<Longrightarrow> ev_live V (snd (pb_batch_set E b k v))"
    and "ev_live V b \<Longrightarrow> ev_writes V (snd (pb_batch_set E b k v)) = ev_writes V b @ [(k, Some (slice_copy v))]"
    and "ev_live V b \<Longrightarrow> fst (pb_batch_delete E b k) = None"
    and "ev_live V b \<Longrightarrow> ev_live V (snd (pb_batch_delete E b k))"
    and "ev_live V b \<Longrightarrow> ev_writes V (snd (pb_batch_delete E b k)) = ev_writes V b @ [(k, None)]"
    and "ev_live V b \<Longrightarrow> ev_open V e \<Longrightarrow> fst (pb_batch_commit E b e s) = None"
    and "ev_live V b \<Longrightarrow> ev_open V e \<Longrightarrow> ev_open V (snd (snd (pb_batch_commit E b e s)))"
    and "ev_live V b \<Longrightarrow> ev_open V e \<Longrightarrow>
      ev_map V (snd (snd (pb_batch_commit E b e s))) = apply_raw (ev_map V e) (ev_writes V b)"
  using engine_okD(2) [OF assms] by (simp_all add: batches_ok_def)

lemma iters_okD:
  assumes "engine_ok E V"
  shows "ev_open V e \<Longrightarrow> \<exists>it. pb_new_iter E e lo hi = Inr it \<and>
      ev_entries V it = sorted_entries (in_bounds lo hi (ev_map V e))"
    and "pb_valid E it = (0 \<le> ev_pos V it \<and> ev_pos V it < int (length (ev_entries V it)))"
    and "pb_valid E it \<Longrightarrow> pb_key E it = Some (fst (ev_entries V it ! nat (ev_pos V it)))"
    and "pb_valid E it \<Longrightarrow> pb_value E it = Inr (Some (snd (ev_entries V it ! nat (ev_pos V it))))"
    and "pb_valid E it \<Longrightarrow> ev_entries V (pb_next E it) = ev_entries V it"
    and "pb_valid E it \<Longrightarrow> ev_pos V (pb_next E it) = ev_pos V it + 1"
    and "pb_valid E it \<Longrightarrow> ev_entries V (pb_prev E it) = ev_entries V it"
    and "pb_valid E it \<Longrightarrow> ev_pos V (pb_prev E it) = ev_pos V it - 1"
    and "ev_entries V (pb_seek_ge E it k) = ev_entries V it"
    and "ev_pos V (pb_seek_ge E it k) = int (seek_index (ev_entries V it) k)"
    and "ev_entries V (pb_first E it) = ev_entries V it" and "ev_pos V (pb_first E it) = 0"
    and "ev_entries V (pb_last E it) = ev_entries V it"
    and "ev_pos V (pb_last E it) = int (length (ev_entries V it)) - 1"
proof -
  show "ev_open V e \<Longrightarrow> \<exists>it. pb_new_iter E e lo hi = Inr it \<and>
      ev_entries V it = sorted_entries (in_bounds lo hi (ev_map V e))"
    using engine_okD(3) [OF assms] unfolding iters_ok_def by blast
qed (use engine_okD(3) [OF assms] in \<open>simp_all add: iters_ok_def Let_def\<close>)

section \<open>An engine that satisfies the documentation\<close>

text \<open>
  Databases are association lists with an open flag, batches the writes so far, iterators a
  sorted list and a position.
\<close>

type_synonym mem_db = "bool \<times> (bytes \<times> bytes) list"
type_synonym mem_batch = "(bytes \<times> bytes option) list"
type_synonym mem_iter = "(bytes \<times> bytes) list \<times> int"

definition mem_write :: "(bytes \<times> bytes) list \<Rightarrow> bytes \<times> bytes option \<Rightarrow> (bytes \<times> bytes) list" where
  "mem_write d w = (case w of (k, None) \<Rightarrow> AList.delete k d | (k, Some v) \<Rightarrow> AList.update k v d)"

definition mem_range :: "bytes \<Rightarrow> bytes \<Rightarrow> (bytes \<times> bytes) list \<Rightarrow> (bytes \<times> bytes) list" where
  "mem_range lo hi d =
     map (\<lambda>k. (k, the (map_of d k))) (sorted_list_of_set (set (filter (\<lambda>k. lo \<le> k \<and> k < hi) (map fst d))))"

definition mem_engine :: "(mem_db, mem_batch, mem_iter) engine" where
  "mem_engine =
     \<lparr>pb_open = (\<lambda>_ _. Inr (True, [])),
      pb_get = (\<lambda>e k. case map_of (snd e) k of None \<Rightarrow> Inl PebbleNotFound | Some v \<Rightarrow> Inr v),
      pb_set = (\<lambda>e k v _. (None, (fst e, AList.update k (slice_copy v) (snd e)))),
      pb_delete = (\<lambda>e k _. (None, (fst e, AList.delete k (snd e)))),
      pb_flush = (\<lambda>e. (None, e)),
      pb_close = (\<lambda>e. (None, (False, snd e))),
      pb_new_batch = (\<lambda>_. []),
      pb_batch_set = (\<lambda>b k v. (None, b @ [(k, Some (slice_copy v))])),
      pb_batch_delete = (\<lambda>b k. (None, b @ [(k, None)])),
      pb_batch_count = (\<lambda>b. of_nat (length b)),
      pb_batch_commit = (\<lambda>b e _. (None, b, (fst e, foldl mem_write (snd e) b))),
      pb_batch_close = (\<lambda>b. (None, b)),
      pb_new_iter = (\<lambda>e lo hi. Inr (mem_range lo hi (snd e), -1)),
      pb_seek_ge = (\<lambda>it k. (fst it, int (seek_index (fst it) k))),
      pb_first = (\<lambda>it. (fst it, 0)),
      pb_last = (\<lambda>it. (fst it, int (length (fst it)) - 1)),
      pb_next = (\<lambda>it. (fst it, snd it + 1)),
      pb_prev = (\<lambda>it. (fst it, snd it - 1)),
      pb_valid = (\<lambda>it. 0 \<le> snd it \<and> snd it < int (length (fst it))),
      pb_key = (\<lambda>it. if 0 \<le> snd it \<and> snd it < int (length (fst it))
                      then Some (fst (fst it ! nat (snd it))) else None),
      pb_value = (\<lambda>it. Inr (if 0 \<le> snd it \<and> snd it < int (length (fst it))
                             then Some (snd (fst it ! nat (snd it))) else None)),
      pb_error = (\<lambda>_. None),
      pb_iter_close = (\<lambda>it. (None, it))\<rparr>"

definition mem_view :: "(mem_db, mem_batch, mem_iter) engine_view" where
  "mem_view =
     \<lparr>ev_open = fst, ev_map = (\<lambda>e. map_of (snd e)), ev_live = (\<lambda>_. True), ev_writes = (\<lambda>b. b),
      ev_entries = fst, ev_pos = snd\<rparr>"

lemma map_of_mem_writes: "map_of (foldl mem_write d ws) = apply_raw (map_of d) ws"
proof (induction ws arbitrary: d)
  case Nil
  show ?case by simp
next
  case (Cons w ws)
  obtain k ov where w: "w = (k, ov)" by (cases w)
  have "map_of (mem_write d w) = (map_of d)(k := ov)"
    by (cases ov) (simp_all add: w mem_write_def)
  then have "map_of (mem_write d w) = (map_of d)(k := ov)"
    by (simp add: fun_eq_iff)
  with Cons.IH [of "mem_write d w"] show ?case by (simp only: w foldl_Cons apply_raw_simps)
qed

lemma mem_range_entries: "mem_range lo hi d = sorted_entries (in_bounds lo hi (map_of d))"
proof -
  have d: "dom (in_bounds lo hi (map_of d)) = set (filter (\<lambda>k. lo \<le> k \<and> k < hi) (map fst d))"
  proof -
    have "dom (in_bounds lo hi (map_of d)) = {k \<in> dom (map_of d). lo \<le> k \<and> k < hi}"
      by (auto simp: in_bounds_def split: if_splits)
    then show ?thesis by (auto simp: dom_map_of_conv_image_fst)
  qed
  show ?thesis
    unfolding mem_range_def sorted_entries_def d
    by (rule map_cong [OF refl]) (simp add: in_bounds_def)
qed

lemma mem_engine_ok: "engine_ok mem_engine mem_view"
proof -
  have "points_ok mem_engine mem_view"
    by (simp add: points_ok_def mem_engine_def mem_view_def finite_dom_map_of)
  moreover have "batches_ok mem_engine mem_view"
    by (simp add: batches_ok_def mem_engine_def mem_view_def map_of_mem_writes)
  moreover have "iters_ok mem_engine mem_view"
    by (simp add: iters_ok_def mem_engine_def mem_view_def Let_def mem_range_entries)
  ultimately show ?thesis by (simp add: engine_ok_def)
qed

end
