(* ===== verification/Keyspace.thy ===== *)
theory Keyspace
  imports Store_Spec
begin

text \<open>
  How \<open>db/pebble.go\<close> simulates column families: the helpers \<open>cfPrefix\<close>, \<open>cfUpperBound\<close> and
  \<open>prefixedKey\<close> (lines 431 to 454), and what makes the scheme work: the bounds of an iterator
  select exactly the keys with the family's prefix, prefixing keeps the key order, and two
  families never share a storage key as long as no name holds a NUL byte.
\<close>

definition cf_prefix :: "string \<Rightarrow> bytes" where
  "cf_prefix cf = bytes_of_string cf @ [0]"

definition cf_upper_bound :: "string \<Rightarrow> bytes" where
  "cf_upper_bound cf = bytes_of_string cf @ [1]"

definition prefixed_key :: "bytes \<Rightarrow> slice \<Rightarrow> bytes" where
  "prefixed_key p key = p @ slice_copy key"

definition nul_free :: "string \<Rightarrow> bool" where
  "nul_free cf \<longleftrightarrow> CHR 0x00 \<notin> set cf"

section \<open>Byte strings in lexicographic order\<close>

lemma byte_less_one: "(b::byte) < 1 \<longleftrightarrow> b = 0"
  by (simp add: word_less_nat_alt unat_eq_0)

lemma append_less_append [simp]:
  fixes p :: "'a::linorder list"
  shows "p @ a < p @ b \<longleftrightarrow> a < b" and "p @ a \<le> p @ b \<longleftrightarrow> a \<le> b"
  by (induction p) simp_all

lemma between_zero_one_iff_prefix:
  fixes p k :: bytes
  shows "p @ [0] \<le> k \<and> k < p @ [1] \<longleftrightarrow> prefix (p @ [0]) k"
proof (induction p arbitrary: k)
  case Nil
  show ?case
  proof (cases k)
    case (Cons b r)
    have "(0::byte) < b \<or> 0 = b" by (cases "b = 0") (simp_all add: word_gt_0)
    with Cons show ?thesis by (auto simp: byte_less_one)
  qed simp
next
  case (Cons a p)
  show ?case
  proof (cases k)
    case Nil
    then show ?thesis by simp
  next
    case k: (Cons b r)
    show ?thesis
    proof (cases "a = b")
      case True
      with Cons.IH [of r] k show ?thesis by simp
    next
      case False
      then show ?thesis by (simp add: k) (metis order.asym)
    qed
  qed
qed

section \<open>Families occupy separate ranges\<close>

lemma cf_range_iff_prefix:
  "cf_prefix cf \<le> k \<and> k < cf_upper_bound cf \<longleftrightarrow> prefix (cf_prefix cf) k"
  unfolding cf_prefix_def cf_upper_bound_def by (rule between_zero_one_iff_prefix)

lemma prefixed_key_less [simp]:
  "prefixed_key p a < prefixed_key p b \<longleftrightarrow> slice_copy a < slice_copy b"
  "prefixed_key p a \<le> prefixed_key p b \<longleftrightarrow> slice_copy a \<le> slice_copy b"
  by (simp_all add: prefixed_key_def)

lemma prefixed_key_inject [simp]:
  "prefixed_key p a = prefixed_key p b \<longleftrightarrow> slice_copy a = slice_copy b"
  by (simp add: prefixed_key_def)

lemma prefix_prefixed_key [simp]: "prefix p (prefixed_key p k)"
  by (simp add: prefixed_key_def)

lemma drop_prefixed_key [simp]: "drop (length p) (prefixed_key p k) = slice_copy k"
  by (simp add: prefixed_key_def)

lemma prefix_is_prefixed_key: "prefix p k \<Longrightarrow> k = prefixed_key p (Some (drop (length p) k))"
  by (auto simp: prefixed_key_def prefix_def)

lemma takeWhile_cf_prefix:
  assumes "nul_free cf" and "prefix (cf_prefix cf) k"
  shows "takeWhile (\<lambda>b. b \<noteq> 0) k = bytes_of_string cf"
proof -
  have nz: "\<forall>b\<in>set (bytes_of_string cf). b \<noteq> 0"
  proof
    fix b
    assume "b \<in> set (bytes_of_string cf)"
    then obtain c where c: "c \<in> set cf" "b = byte_of_char c" by (auto simp: bytes_of_string_def)
    show "b \<noteq> 0"
    proof
      assume "b = 0"
      then have "of_char c = (of_char (CHR 0x00) :: nat)"
        using unat_byte_of_char [of c] c(2) by simp
      then have "c = CHR 0x00" by (simp only: of_char_eq_iff)
      with c(1) assms(1) show False by (simp add: nul_free_def)
    qed
  qed
  from assms(2) obtain r where "k = bytes_of_string cf @ 0 # r"
    by (auto simp: prefix_def cf_prefix_def)
  with nz show ?thesis by (simp add: takeWhile_append2)
qed

lemma cf_prefix_disjoint:
  assumes "nul_free cf" "nul_free cf'" and "prefix (cf_prefix cf) k" "prefix (cf_prefix cf') k"
  shows "cf = cf'"
  using takeWhile_cf_prefix [OF assms(1,3)] takeWhile_cf_prefix [OF assms(2,4)] by simp

lemma prefixed_key_cf_inject:
  assumes "nul_free cf" "nul_free cf'"
  shows "prefixed_key (cf_prefix cf) a = prefixed_key (cf_prefix cf') b \<longleftrightarrow> cf = cf' \<and> slice_copy a = slice_copy b"
proof
  assume eq: "prefixed_key (cf_prefix cf) a = prefixed_key (cf_prefix cf') b"
  then have "cf = cf'"
    by (metis cf_prefix_disjoint [OF assms] prefix_prefixed_key)
  with eq show "cf = cf' \<and> slice_copy a = slice_copy b" by simp
qed auto

end
