(* ===== verification/Pebble_Iterator.thy ===== *)
theory Pebble_Iterator
  imports Pebble_Engine Keyspace
begin

text \<open>
  The production iterator of \<open>db/pebble.go\<close> (lines 359 to 416): an engine iterator bounded to
  one family's key range, whose keys are shown without the family's prefix. On an engine that
  behaves as documented it implements \<open>cursor\<close>.
\<close>

record 'i pebble_iterator =
  pi_iter :: 'i
  pi_prefix :: bytes
  pi_prefixLen :: nat
  pi_closed :: bool
  pi_err :: "pebble_error option"

definition pebble_it_Seek :: "('e, 'b, 'i) engine \<Rightarrow> 'i pebble_iterator \<Rightarrow> slice \<Rightarrow> 'i pebble_iterator" where
  "pebble_it_Seek E it target =
     it\<lparr>pi_iter := pb_seek_ge E (pi_iter it) (prefixed_key (pi_prefix it) target)\<rparr>"

definition pebble_it_SeekToFirst :: "('e, 'b, 'i) engine \<Rightarrow> 'i pebble_iterator \<Rightarrow> 'i pebble_iterator" where
  "pebble_it_SeekToFirst E it = it\<lparr>pi_iter := pb_first E (pi_iter it)\<rparr>"

definition pebble_it_SeekToLast :: "('e, 'b, 'i) engine \<Rightarrow> 'i pebble_iterator \<Rightarrow> 'i pebble_iterator" where
  "pebble_it_SeekToLast E it = it\<lparr>pi_iter := pb_last E (pi_iter it)\<rparr>"

definition pebble_it_Next :: "('e, 'b, 'i) engine \<Rightarrow> 'i pebble_iterator \<Rightarrow> 'i pebble_iterator" where
  "pebble_it_Next E it = it\<lparr>pi_iter := pb_next E (pi_iter it)\<rparr>"

definition pebble_it_Prev :: "('e, 'b, 'i) engine \<Rightarrow> 'i pebble_iterator \<Rightarrow> 'i pebble_iterator" where
  "pebble_it_Prev E it = it\<lparr>pi_iter := pb_prev E (pi_iter it)\<rparr>"

definition pebble_it_Valid :: "('e, 'b, 'i) engine \<Rightarrow> 'i pebble_iterator \<Rightarrow> bool" where
  "pebble_it_Valid E it = pb_valid E (pi_iter it)"

definition pebble_it_Key :: "('e, 'b, 'i) engine \<Rightarrow> 'i pebble_iterator \<Rightarrow> slice" where
  "pebble_it_Key E it =
     (let raw = slice_copy (pb_key E (pi_iter it))
      in if length raw < pi_prefixLen it then None else Some (drop (pi_prefixLen it) raw))"

text \<open>\<open>Value\<close> records an engine error in the iterator.\<close>

definition pebble_it_Value :: "('e, 'b, 'i) engine \<Rightarrow> 'i pebble_iterator \<Rightarrow> slice \<times> 'i pebble_iterator" where
  "pebble_it_Value E it =
     (case pb_value E (pi_iter it) of
        Inl e \<Rightarrow> (None, it\<lparr>pi_err := Some e\<rparr>)
      | Inr v \<Rightarrow> (Some (slice_copy v), it))"

definition pebble_it_Err :: "('e, 'b, 'i) engine \<Rightarrow> 'i pebble_iterator \<Rightarrow> pebble_error option" where
  "pebble_it_Err E it = (if pi_err it \<noteq> None then pi_err it else pb_error E (pi_iter it))"

definition pebble_it_Close :: "('e, 'b, 'i) engine \<Rightarrow> 'i pebble_iterator \<Rightarrow> 'i pebble_iterator" where
  "pebble_it_Close E it =
     (if \<not> pi_closed it then it\<lparr>pi_iter := snd (pb_iter_close E (pi_iter it)), pi_closed := True\<rparr> else it)"

lemmas pebble_it_defs = pebble_it_Seek_def pebble_it_SeekToFirst_def pebble_it_SeekToLast_def
  pebble_it_Next_def pebble_it_Prev_def pebble_it_Valid_def

section \<open>Entries without the prefix\<close>

definition strip_entries :: "nat \<Rightarrow> (bytes \<times> bytes) list \<Rightarrow> (bytes \<times> bytes) list" where
  "strip_entries n es = map (\<lambda>(k, v). (drop n k, v)) es"

definition pebble_it_entries :: "('e, 'b, 'i) engine_view \<Rightarrow> 'i pebble_iterator \<Rightarrow> (bytes \<times> bytes) list" where
  "pebble_it_entries V it = strip_entries (pi_prefixLen it) (ev_entries V (pi_iter it))"

definition pebble_it_pos :: "('e, 'b, 'i) engine_view \<Rightarrow> 'i pebble_iterator \<Rightarrow> int" where
  "pebble_it_pos V it = ev_pos V (pi_iter it)"

definition pebble_it_ok :: "('e, 'b, 'i) engine_view \<Rightarrow> 'i pebble_iterator \<Rightarrow> bool" where
  "pebble_it_ok V it \<longleftrightarrow>
     pi_prefixLen it = length (pi_prefix it) \<and>
     sorted_wrt (<) (map fst (ev_entries V (pi_iter it))) \<and>
     (\<forall>e\<in>set (ev_entries V (pi_iter it)). prefix (pi_prefix it) (fst e))"

lemma length_strip_entries [simp]: "length (strip_entries n es) = length es"
  by (simp add: strip_entries_def)

lemma strip_entries_nth [simp]:
  "i < length es \<Longrightarrow> strip_entries n es ! i = (drop n (fst (es ! i)), snd (es ! i))"
  by (simp add: strip_entries_def case_prod_beta)

lemma drop_prefix_less:
  fixes a b :: bytes
  assumes "prefix p a" and "prefix p b"
  shows "drop (length p) a < drop (length p) b \<longleftrightarrow> a < b"
  using assms by (auto simp: prefix_def)

lemma strip_entries_sorted:
  assumes "\<forall>e\<in>set es. prefix p (fst e)" and "sorted_wrt (<) (map fst es)"
  shows "sorted_wrt (<) (map fst (strip_entries (length p) es))"
proof -
  have "sorted_wrt (\<lambda>a b. fst a < fst b) es"
    using assms(2) by (simp add: sorted_wrt_map)
  then have "sorted_wrt (\<lambda>a b. drop (length p) (fst a) < drop (length p) (fst b)) es"
    by (rule sorted_wrt_mono_rel [rotated]) (use assms(1) in \<open>simp add: drop_prefix_less\<close>)
  then show ?thesis
    by (simp add: strip_entries_def sorted_wrt_map case_prod_beta)
qed

lemma strip_entries_map_of:
  assumes "\<forall>e\<in>set es. prefix p (fst e)"
  shows "map_of (strip_entries (length p) es) k = map_of es (p @ k)"
  using assms by (induction es) (auto simp: strip_entries_def prefix_def)

lemma strip_entries_seek:
  assumes "\<forall>e\<in>set es. prefix p (fst e)"
  shows "seek_index es (p @ t) = seek_index (strip_entries (length p) es) t"
  using assms by (induction es) (auto simp: strip_entries_def seek_index_def prefix_def)

text \<open>The iterator of a family's range shows exactly the family's contents.\<close>

lemma family_entries:
  assumes "finite (dom m)"
  shows "\<forall>e\<in>set (sorted_entries (in_bounds (cf_prefix cf) (cf_upper_bound cf) m)). prefix (cf_prefix cf) (fst e)"
    and "strip_entries (length (cf_prefix cf)) (sorted_entries (in_bounds (cf_prefix cf) (cf_upper_bound cf) m))
      = sorted_entries (\<lambda>k. m (cf_prefix cf @ k))"
proof -
  let ?m = "in_bounds (cf_prefix cf) (cf_upper_bound cf) m"
  have m: "?m = (\<lambda>k. if prefix (cf_prefix cf) k then m k else None)"
    by (simp add: in_bounds_def cf_range_iff_prefix)
  have "dom ?m \<subseteq> dom m" by (auto simp: m split: if_splits)
  then have fin: "finite (dom ?m)" using assms finite_subset by blast
  show pre: "\<forall>e\<in>set (sorted_entries ?m). prefix (cf_prefix cf) (fst e)"
    using fin by (auto simp: sorted_entries_def m split: if_splits)
  have "sorted_wrt (<) (map fst (sorted_entries ?m))"
    using sorted_entries_keys [OF fin] by (simp add: strict_sorted_iff)
  note s = strip_entries_sorted [OF pre this]
  show "strip_entries (length (cf_prefix cf)) (sorted_entries ?m) = sorted_entries (\<lambda>k. m (cf_prefix cf @ k))"
    using strip_entries_map_of [OF pre] map_of_sorted_entries [OF fin]
    by (intro sorted_entriesI [OF s]) (simp add: fun_eq_iff m)
qed

section \<open>The interface\<close>

lemma pebble_it_cursor:
  assumes E: "engine_ok E V"
  shows "cursor (pebble_it_Seek E) (pebble_it_SeekToFirst E) (pebble_it_SeekToLast E)
    (pebble_it_Next E) (pebble_it_Prev E) (pebble_it_Valid E) (pebble_it_Key E)
    (\<lambda>it. fst (pebble_it_Value E it)) (pebble_it_entries V) (pebble_it_pos V) (pebble_it_ok V)"
proof unfold_locales
  fix it :: "'c pebble_iterator" and t
  assume ok: "pebble_it_ok V it"
  then have len: "pi_prefixLen it = length (pi_prefix it)"
    and srt: "sorted_wrt (<) (map fst (ev_entries V (pi_iter it)))"
    and pre: "\<forall>e\<in>set (ev_entries V (pi_iter it)). prefix (pi_prefix it) (fst e)"
    by (auto simp: pebble_it_ok_def)
  note I = iters_okD [OF E]
  show "sorted_wrt (<) (map fst (pebble_it_entries V it))"
    using strip_entries_sorted [OF pre srt] by (simp add: pebble_it_entries_def len)
  show v: "pebble_it_Valid E it = (0 \<le> pebble_it_pos V it \<and> pebble_it_pos V it < int (length (pebble_it_entries V it)))"
    by (simp add: pebble_it_Valid_def pebble_it_pos_def pebble_it_entries_def I(2))
  show "pebble_it_ok V (pebble_it_Seek E it t) \<and> pebble_it_entries V (pebble_it_Seek E it t) = pebble_it_entries V it \<and>
      pebble_it_pos V (pebble_it_Seek E it t) = int (seek_index (pebble_it_entries V it) (slice_copy t))"
    using ok strip_entries_seek [OF pre]
    by (simp add: pebble_it_ok_def pebble_it_Seek_def pebble_it_entries_def pebble_it_pos_def prefixed_key_def I(9,10))
  show "pebble_it_ok V (pebble_it_SeekToFirst E it) \<and> pebble_it_entries V (pebble_it_SeekToFirst E it) = pebble_it_entries V it \<and>
      pebble_it_pos V (pebble_it_SeekToFirst E it) = 0"
    using ok by (simp add: pebble_it_ok_def pebble_it_SeekToFirst_def pebble_it_entries_def pebble_it_pos_def I(11,12))
  show "pebble_it_ok V (pebble_it_SeekToLast E it) \<and> pebble_it_entries V (pebble_it_SeekToLast E it) = pebble_it_entries V it \<and>
      pebble_it_pos V (pebble_it_SeekToLast E it) = int (length (pebble_it_entries V it)) - 1"
    using ok by (simp add: pebble_it_ok_def pebble_it_SeekToLast_def pebble_it_entries_def pebble_it_pos_def I(13,14))
  assume va: "pebble_it_Valid E it"
  then have pv: "pb_valid E (pi_iter it)" by (simp add: pebble_it_Valid_def)
  from va v have lt: "nat (ev_pos V (pi_iter it)) < length (ev_entries V (pi_iter it))"
    by (auto simp: pebble_it_pos_def pebble_it_entries_def)
  with pre have "prefix (pi_prefix it) (fst (ev_entries V (pi_iter it) ! nat (ev_pos V (pi_iter it))))"
    by simp
  then have "\<not> length (fst (ev_entries V (pi_iter it) ! nat (ev_pos V (pi_iter it)))) < pi_prefixLen it"
    using len prefix_length_le by fastforce
  then show "pebble_it_Key E it = Some (fst (pebble_it_entries V it ! nat (pebble_it_pos V it)))"
    using lt by (simp add: pebble_it_Key_def Let_def I(3) [OF pv] pebble_it_entries_def pebble_it_pos_def)
  show "fst (pebble_it_Value E it) = Some (snd (pebble_it_entries V it ! nat (pebble_it_pos V it)))"
    using lt by (simp add: pebble_it_Value_def I(4) [OF pv] pebble_it_entries_def pebble_it_pos_def)
  show "pebble_it_ok V (pebble_it_Next E it) \<and> pebble_it_entries V (pebble_it_Next E it) = pebble_it_entries V it \<and>
      pebble_it_pos V (pebble_it_Next E it) = pebble_it_pos V it + 1"
    using ok by (simp add: pebble_it_ok_def pebble_it_Next_def pebble_it_entries_def pebble_it_pos_def I(5,6) [OF pv])
  show "pebble_it_ok V (pebble_it_Prev E it) \<and> pebble_it_entries V (pebble_it_Prev E it) = pebble_it_entries V it \<and>
      pebble_it_pos V (pebble_it_Prev E it) = pebble_it_pos V it - 1"
    using ok by (simp add: pebble_it_ok_def pebble_it_Prev_def pebble_it_entries_def pebble_it_pos_def I(7,8) [OF pv])
qed

end
