(* ===== verification/Db_Options.thy ===== *)
theory Db_Options
  imports Prelude
begin

text \<open>
  The configuration of \<open>db/options.go\<close>: the \<open>Config\<close> struct, its defaults and the functional
  options, each a function on the configuration. A logger is a value of an abstract type
  \<open>'l\<close>; the nil interface is \<open>None\<close>.
\<close>

record 'l db_config =
  dbc_ColumnFamilies :: "string list"
  dbc_CacheSize :: int
  dbc_MemTableSize :: "64 word"
  dbc_MaxConcurrentCompactions :: int
  dbc_MaxOpenFiles :: int
  dbc_L0CompactionThreshold :: int
  dbc_L0StopWritesThreshold :: int
  dbc_LBaseMaxBytes :: int
  dbc_WALDir :: string
  dbc_SyncWrites :: bool
  dbc_Logger :: "'l option"

text \<open>\<open>runtime.NumCPU()\<close> is a parameter.\<close>

definition db_DefaultConfig :: "int \<Rightarrow> 'l db_config" where
  "db_DefaultConfig numCPU =
     \<lparr>dbc_ColumnFamilies = [],
      dbc_CacheSize = push_bit 20 256,
      dbc_MemTableSize = push_bit 20 64,
      dbc_MaxConcurrentCompactions = numCPU,
      dbc_MaxOpenFiles = 0,
      dbc_L0CompactionThreshold = 4,
      dbc_L0StopWritesThreshold = 12,
      dbc_LBaseMaxBytes = push_bit 20 256,
      dbc_WALDir = '''',
      dbc_SyncWrites = False,
      dbc_Logger = None\<rparr>"

type_synonym 'l db_option = "'l db_config \<Rightarrow> 'l db_config"

definition db_WithColumnFamilies :: "string list \<Rightarrow> 'l db_option" where
  "db_WithColumnFamilies cfs = (\<lambda>c. c\<lparr>dbc_ColumnFamilies := cfs\<rparr>)"

definition db_WithCacheSize :: "int \<Rightarrow> 'l db_option" where
  "db_WithCacheSize sz = (\<lambda>c. c\<lparr>dbc_CacheSize := sz\<rparr>)"

definition db_WithMemTableSize :: "64 word \<Rightarrow> 'l db_option" where
  "db_WithMemTableSize sz = (\<lambda>c. c\<lparr>dbc_MemTableSize := sz\<rparr>)"

definition db_WithMaxConcurrentCompactions :: "int \<Rightarrow> 'l db_option" where
  "db_WithMaxConcurrentCompactions n = (\<lambda>c. c\<lparr>dbc_MaxConcurrentCompactions := n\<rparr>)"

definition db_WithMaxOpenFiles :: "int \<Rightarrow> 'l db_option" where
  "db_WithMaxOpenFiles n = (\<lambda>c. c\<lparr>dbc_MaxOpenFiles := n\<rparr>)"

definition db_WithL0CompactionThreshold :: "int \<Rightarrow> 'l db_option" where
  "db_WithL0CompactionThreshold n = (\<lambda>c. c\<lparr>dbc_L0CompactionThreshold := n\<rparr>)"

definition db_WithL0StopWritesThreshold :: "int \<Rightarrow> 'l db_option" where
  "db_WithL0StopWritesThreshold n = (\<lambda>c. c\<lparr>dbc_L0StopWritesThreshold := n\<rparr>)"

definition db_WithLBaseMaxBytes :: "int \<Rightarrow> 'l db_option" where
  "db_WithLBaseMaxBytes sz = (\<lambda>c. c\<lparr>dbc_LBaseMaxBytes := sz\<rparr>)"

definition db_WithWALDir :: "string \<Rightarrow> 'l db_option" where
  "db_WithWALDir dir = (\<lambda>c. c\<lparr>dbc_WALDir := dir\<rparr>)"

definition db_WithSyncWrites :: "bool \<Rightarrow> 'l db_option" where
  "db_WithSyncWrites sync = (\<lambda>c. c\<lparr>dbc_SyncWrites := sync\<rparr>)"

definition db_WithLogger :: "'l \<Rightarrow> 'l db_option" where
  "db_WithLogger l = (\<lambda>c. c\<lparr>dbc_Logger := Some l\<rparr>)"

text \<open>\<open>for _, o := range opts { o(cfg) }\<close>\<close>

definition apply_options :: "('c \<Rightarrow> 'c) list \<Rightarrow> 'c \<Rightarrow> 'c" where
  "apply_options opts c = foldl (\<lambda>c o'. o' c) c opts"

lemma apply_options_simps [simp]:
  "apply_options [] c = c"
  "apply_options (f # fs) c = apply_options fs (f c)"
  "apply_options (fs @ gs) c = apply_options gs (apply_options fs c)"
  by (simp_all add: apply_options_def)

lemmas db_option_defs = db_WithColumnFamilies_def db_WithCacheSize_def db_WithMemTableSize_def
  db_WithMaxConcurrentCompactions_def db_WithMaxOpenFiles_def db_WithL0CompactionThreshold_def
  db_WithL0StopWritesThreshold_def db_WithLBaseMaxBytes_def db_WithWALDir_def db_WithSyncWrites_def
  db_WithLogger_def

end
