(* ===== verification/Pebble_Store.thy ===== *)
theory Pebble_Store
  imports Pebble_Iterator Db_Options
begin

text \<open>
  The production store of \<open>db/pebble.go\<close>: \<open>PebbleDB\<close> and its batches over the engine. Every
  operation holds the read lock for its whole body and \<open>Close\<close> the write lock, so an operation
  is atomic with respect to \<open>Close\<close>; the engine is safe for concurrent use. Log output is left
  out.
\<close>

section \<open>State\<close>

record 'e pebble_db =
  pd_db :: 'e
  pd_prefixes :: "(string \<times> bytes) list"
  pd_writeOpts :: bool
  pd_path :: string
  pd_closed :: bool

definition wrap_engine :: "string \<Rightarrow> pebble_error \<Rightarrow> db_error" where
  "wrap_engine what e = ErrEngine what (pebble_msg e)"

definition pebble_options_of :: "'l db_config \<Rightarrow> pebble_options" where
  "pebble_options_of cfg =
     \<lparr>po_CacheSize = dbc_CacheSize cfg,
      po_MemTableSize = dbc_MemTableSize cfg,
      po_MaxOpenFiles = dbc_MaxOpenFiles cfg,
      po_MaxConcurrentCompactions = dbc_MaxConcurrentCompactions cfg,
      po_L0CompactionThreshold = dbc_L0CompactionThreshold cfg,
      po_L0StopWritesThreshold = dbc_L0StopWritesThreshold cfg,
      po_LBaseMaxBytes = dbc_LBaseMaxBytes cfg,
      po_WALDir = dbc_WALDir cfg,
      po_DisableAutomaticCompactions = False\<rparr>"

definition build_prefixes :: "string list \<Rightarrow> (string \<times> bytes) list" where
  "build_prefixes cfs =
     fold (\<lambda>cf d. if cf \<noteq> DefaultColumnFamily then AList.update cf (cf_prefix cf) d else d) cfs
       [(DefaultColumnFamily, cf_prefix DefaultColumnFamily)]"

definition pebble_Open ::
  "('e, 'b, 'i) engine \<Rightarrow> int \<Rightarrow> string \<Rightarrow> 'l db_option list \<Rightarrow> db_error + 'e pebble_db" where
  "pebble_Open E numCPU path opts =
     (let cfg = apply_options opts (db_DefaultConfig numCPU)
      in case pb_open E path (pebble_options_of cfg) of
           Inl err \<Rightarrow> Inl (wrap_engine (''failed to open '' @ path) err)
         | Inr db \<Rightarrow>
             Inr \<lparr>pd_db = db,
                  pd_prefixes = build_prefixes (dbc_ColumnFamilies cfg),
                  pd_writeOpts = dbc_SyncWrites cfg,
                  pd_path = path,
                  pd_closed = False\<rparr>)"

definition pebble_cfPrefix :: "'e pebble_db \<Rightarrow> string \<Rightarrow> db_error + bytes" where
  "pebble_cfPrefix p cf =
     (case map_of (pd_prefixes p) cf of
        None \<Rightarrow> Inl (ErrColumnFamilyNotFound cf)
      | Some pre \<Rightarrow> Inr pre)"

section \<open>Store operations\<close>

definition pebble_Get :: "('e, 'b, 'i) engine \<Rightarrow> 'e pebble_db \<Rightarrow> string \<Rightarrow> slice \<Rightarrow> db_error + bytes" where
  "pebble_Get E p cf key =
     (if pd_closed p then Inl ErrClosed
      else if key = None then Inl ErrNilKey
      else case pebble_cfPrefix p cf of
        Inl e \<Rightarrow> Inl e
      | Inr pre \<Rightarrow>
          (case pb_get E (pd_db p) (prefixed_key pre key) of
             Inl err \<Rightarrow> if err = PebbleNotFound then Inl ErrKeyNotFound else Inl (wrap_engine ''get failed'' err)
           | Inr v \<Rightarrow> Inr v))"

definition pebble_Put ::
  "('e, 'b, 'i) engine \<Rightarrow> 'e pebble_db \<Rightarrow> string \<Rightarrow> slice \<Rightarrow> slice \<Rightarrow> db_error option \<times> 'e pebble_db" where
  "pebble_Put E p cf key val =
     (if pd_closed p then (Some ErrClosed, p)
      else if key = None then (Some ErrNilKey, p)
      else case pebble_cfPrefix p cf of
        Inl e \<Rightarrow> (Some e, p)
      | Inr pre \<Rightarrow>
          (let (err, db) = pb_set E (pd_db p) (prefixed_key pre key) val (pd_writeOpts p)
           in (map_option (wrap_engine ''put failed'') err, p\<lparr>pd_db := db\<rparr>)))"

definition pebble_Delete ::
  "('e, 'b, 'i) engine \<Rightarrow> 'e pebble_db \<Rightarrow> string \<Rightarrow> slice \<Rightarrow> db_error option \<times> 'e pebble_db" where
  "pebble_Delete E p cf key =
     (if pd_closed p then (Some ErrClosed, p)
      else if key = None then (Some ErrNilKey, p)
      else case pebble_cfPrefix p cf of
        Inl e \<Rightarrow> (Some e, p)
      | Inr pre \<Rightarrow>
          (let (err, db) = pb_delete E (pd_db p) (prefixed_key pre key) (pd_writeOpts p)
           in (map_option (wrap_engine ''delete failed'') err, p\<lparr>pd_db := db\<rparr>)))"

definition pebble_Has :: "('e, 'b, 'i) engine \<Rightarrow> 'e pebble_db \<Rightarrow> string \<Rightarrow> slice \<Rightarrow> db_error + bool" where
  "pebble_Has E p cf key =
     (if pd_closed p then Inl ErrClosed
      else if key = None then Inl ErrNilKey
      else case pebble_cfPrefix p cf of
        Inl e \<Rightarrow> Inl e
      | Inr pre \<Rightarrow>
          (case pb_get E (pd_db p) (prefixed_key pre key) of
             Inl err \<Rightarrow> if err = PebbleNotFound then Inr False else Inl (wrap_engine ''has failed'' err)
           | Inr v \<Rightarrow> Inr True))"

definition pebble_NewIterator ::
  "('e, 'b, 'i) engine \<Rightarrow> 'e pebble_db \<Rightarrow> string \<Rightarrow> db_error + 'i pebble_iterator" where
  "pebble_NewIterator E p cf =
     (if pd_closed p then Inl ErrClosed
      else case pebble_cfPrefix p cf of
        Inl e \<Rightarrow> Inl e
      | Inr pre \<Rightarrow>
          (case pb_new_iter E (pd_db p) pre (cf_upper_bound cf) of
             Inl err \<Rightarrow> Inl (wrap_engine ''new iterator failed'' err)
           | Inr iter \<Rightarrow>
               Inr \<lparr>pi_iter = iter, pi_prefix = pre, pi_prefixLen = length pre,
                    pi_closed = False, pi_err = None\<rparr>))"

definition pebble_Flush :: "('e, 'b, 'i) engine \<Rightarrow> 'e pebble_db \<Rightarrow> db_error option \<times> 'e pebble_db" where
  "pebble_Flush E p =
     (if pd_closed p then (Some ErrClosed, p)
      else let (err, db) = pb_flush E (pd_db p)
           in (map_option (wrap_engine ''flush failed'') err, p\<lparr>pd_db := db\<rparr>))"

text \<open>A flush that fails during shutdown is logged, and the engine is closed all the same.\<close>

definition pebble_Close :: "('e, 'b, 'i) engine \<Rightarrow> 'e pebble_db \<Rightarrow> db_error option \<times> 'e pebble_db" where
  "pebble_Close E p =
     (if pd_closed p then (Some ErrClosed, p)
      else let (_, db1) = pb_flush E (pd_db p); (err, db2) = pb_close E db1
           in (map_option (wrap_engine ''close failed'') err, p\<lparr>pd_closed := True, pd_db := db2\<rparr>))"

section \<open>Batches\<close>

text \<open>The batch's owner is passed to the methods that use it.\<close>

record 'b pebble_batch =
  pk_batch :: 'b
  pk_closed :: bool

definition pebble_NewBatch :: "('e, 'b, 'i) engine \<Rightarrow> 'e pebble_db \<Rightarrow> 'b pebble_batch" where
  "pebble_NewBatch E p = \<lparr>pk_batch = pb_new_batch E (pd_db p), pk_closed = False\<rparr>"

definition pebble_batch_Put ::
  "('e, 'b, 'i) engine \<Rightarrow> 'e pebble_db \<Rightarrow> 'b pebble_batch \<Rightarrow> string \<Rightarrow> slice \<Rightarrow> slice
    \<Rightarrow> db_error option \<times> 'b pebble_batch" where
  "pebble_batch_Put E p b cf key val =
     (if pk_closed b then (Some ErrBatchClosed, b)
      else if key = None then (Some ErrNilKey, b)
      else case pebble_cfPrefix p cf of
        Inl e \<Rightarrow> (Some e, b)
      | Inr pre \<Rightarrow>
          (let (err, b') = pb_batch_set E (pk_batch b) (prefixed_key pre key) val
           in (map_option (wrap_engine ''batch put failed'') err, b\<lparr>pk_batch := b'\<rparr>)))"

definition pebble_batch_Delete ::
  "('e, 'b, 'i) engine \<Rightarrow> 'e pebble_db \<Rightarrow> 'b pebble_batch \<Rightarrow> string \<Rightarrow> slice
    \<Rightarrow> db_error option \<times> 'b pebble_batch" where
  "pebble_batch_Delete E p b cf key =
     (if pk_closed b then (Some ErrBatchClosed, b)
      else if key = None then (Some ErrNilKey, b)
      else case pebble_cfPrefix p cf of
        Inl e \<Rightarrow> (Some e, b)
      | Inr pre \<Rightarrow>
          (let (err, b') = pb_batch_delete E (pk_batch b) (prefixed_key pre key)
           in (map_option (wrap_engine ''batch delete failed'') err, b\<lparr>pk_batch := b'\<rparr>)))"

definition pebble_batch_Count :: "('e, 'b, 'i) engine \<Rightarrow> 'b pebble_batch \<Rightarrow> int" where
  "pebble_batch_Count E b = uint (pb_batch_count E (pk_batch b))"

definition pebble_batch_Commit ::
  "('e, 'b, 'i) engine \<Rightarrow> 'b pebble_batch \<Rightarrow> 'e pebble_db
    \<Rightarrow> db_error option \<times> 'b pebble_batch \<times> 'e pebble_db" where
  "pebble_batch_Commit E b p =
     (if pk_closed b then (Some ErrBatchClosed, b, p)
      else if pd_closed p then (Some ErrClosed, b, p)
      else let (err, b', db) = pb_batch_commit E (pk_batch b) (pd_db p) (pd_writeOpts p)
           in (map_option (wrap_engine ''batch commit failed'') err, b\<lparr>pk_batch := b'\<rparr>, p\<lparr>pd_db := db\<rparr>))"

definition pebble_batch_Close :: "('e, 'b, 'i) engine \<Rightarrow> 'b pebble_batch \<Rightarrow> 'b pebble_batch" where
  "pebble_batch_Close E b =
     (if \<not> pk_closed b
      then b\<lparr>pk_batch := snd (pb_batch_close E (pk_batch b)), pk_closed := True\<rparr> else b)"

section \<open>The operations of a client\<close>

fun pebble_stage ::
  "('e, 'b, 'i) engine \<Rightarrow> 'e pebble_db \<Rightarrow> 'b pebble_batch \<Rightarrow> batch_call \<Rightarrow> db_error option \<times> 'b pebble_batch" where
  "pebble_stage E p b (BatchPut cf key v) = pebble_batch_Put E p b cf key v"
| "pebble_stage E p b (BatchDelete cf key) = pebble_batch_Delete E p b cf key"

definition pebble_write ::
  "('e, 'b, 'i) engine \<Rightarrow> 'e pebble_db \<Rightarrow> batch_call list \<Rightarrow> store_result \<times> 'e pebble_db" where
  "pebble_write E p cs =
     (let (errs, b) = run_ops (pebble_stage E p) (pebble_NewBatch E p) cs;
          (err, _, p') = pebble_batch_Commit E b p
      in case err of None \<Rightarrow> (RBatch errs, p') | Some e \<Rightarrow> (RErr e, p'))"

definition pebble_scan :: "('e, 'b, 'i) engine \<Rightarrow> 'e pebble_db \<Rightarrow> string \<Rightarrow> store_result" where
  "pebble_scan E p cf =
     (case pebble_NewIterator E p cf of
        Inl e \<Rightarrow> RErr e
      | Inr it \<Rightarrow>
          (case collect (pebble_it_Valid E) (pebble_it_Key E) (\<lambda>it. fst (pebble_it_Value E it))
                  (pebble_it_Next E) [] (pebble_it_SeekToFirst E it) of
             None \<Rightarrow> RNoReturn
           | Some es \<Rightarrow> REntries es))"

fun pebble_exec :: "('e, 'b, 'i) engine \<Rightarrow> 'e pebble_db \<Rightarrow> store_op \<Rightarrow> store_result \<times> 'e pebble_db" where
  "pebble_exec E p (OpGet cf key) = (case pebble_Get E p cf key of Inl e \<Rightarrow> RErr e | Inr v \<Rightarrow> RBytes v, p)"
| "pebble_exec E p (OpPut cf key v) = map_prod result_of id (pebble_Put E p cf key v)"
| "pebble_exec E p (OpDelete cf key) = map_prod result_of id (pebble_Delete E p cf key)"
| "pebble_exec E p (OpHas cf key) = (case pebble_Has E p cf key of Inl e \<Rightarrow> RErr e | Inr b \<Rightarrow> RBool b, p)"
| "pebble_exec E p (OpWrite cs) = pebble_write E p cs"
| "pebble_exec E p (OpScan cf) = (pebble_scan E p cf, p)"
| "pebble_exec E p OpFlush = map_prod result_of id (pebble_Flush E p)"
| "pebble_exec E p OpClose = map_prod result_of id (pebble_Close E p)"

section \<open>Invariant and abstraction\<close>

text \<open>
  Registered names are NUL free and mapped to their own prefix, and the engine is open unless
  the store is closed. Nothing is assumed of the engine after \<open>Close\<close>, so the refinement also
  shows that no operation touches it then.
\<close>

definition pebble_wf :: "('e, 'b, 'i) engine_view \<Rightarrow> 'e pebble_db \<Rightarrow> bool" where
  "pebble_wf V p \<longleftrightarrow>
     (\<forall>cf pre. map_of (pd_prefixes p) cf = Some pre \<longrightarrow> pre = cf_prefix cf \<and> nul_free cf) \<and>
     (pd_closed p \<or> ev_open V (pd_db p))"

definition families_of :: "(string \<times> bytes) list \<Rightarrow> (bytes \<Rightarrow> bytes option) \<Rightarrow> families" where
  "families_of ps m = (\<lambda>cf. map_option (\<lambda>pre k. m (pre @ k)) (map_of ps cf))"

definition pebble_abs :: "('e, 'b, 'i) engine_view \<Rightarrow> 'e pebble_db \<Rightarrow> astore" where
  "pebble_abs V p = (if pd_closed p then AClosed else AOpen (families_of (pd_prefixes p) (ev_map V (pd_db p))))"

section \<open>Refinement of the contract\<close>

definition prefixes_ok :: "(string \<times> bytes) list \<Rightarrow> bool" where
  "prefixes_ok ps \<longleftrightarrow> (\<forall>cf pre. map_of ps cf = Some pre \<longrightarrow> pre = cf_prefix cf \<and> nul_free cf)"

lemma prefixes_okD: "prefixes_ok ps \<Longrightarrow> map_of ps cf = Some pre \<Longrightarrow> pre = cf_prefix cf \<and> nul_free cf"
  by (auto simp: prefixes_ok_def)

lemma pebble_wf_iff: "pebble_wf V p \<longleftrightarrow> prefixes_ok (pd_prefixes p) \<and> (pd_closed p \<or> ev_open V (pd_db p))"
  by (auto simp: pebble_wf_def prefixes_ok_def)

lemma families_of_None [simp]: "families_of ps m cf = None \<longleftrightarrow> map_of ps cf = None"
  by (simp add: families_of_def)

lemma families_of_eq_Some:
  "families_of ps m cf = Some f \<longleftrightarrow> (\<exists>pre. map_of ps cf = Some pre \<and> f = (\<lambda>k. m (pre @ k)))"
  by (auto simp: families_of_def)

text \<open>
  Writing a storage key changes its own family only: this is where the separation of the
  prefixes is used.
\<close>

lemma families_of_upd:
  assumes ok: "prefixes_ok ps" and cf: "map_of ps cf = Some pre"
  shows "families_of ps (m(pre @ k := ov)) = upd_family (families_of ps m) cf k ov"
proof
  fix cf'
  show "families_of ps (m(pre @ k := ov)) cf' = upd_family (families_of ps m) cf k ov cf'"
  proof (cases "cf' = cf")
    case True
    with cf show ?thesis by (auto simp: families_of_def upd_family_def)
  next
    case False
    have "pre' @ k' \<noteq> pre @ k" if "map_of ps cf' = Some pre'" for pre' k'
      using prefixed_key_cf_inject [of cf' cf "Some k'" "Some k"] False
        prefixes_okD [OF ok that] prefixes_okD [OF ok cf]
      by (auto simp: prefixed_key_def)
    then have "families_of ps (m(pre @ k := ov)) cf' = families_of ps m cf'"
      by (cases "map_of ps cf'") (auto simp: families_of_def)
    with False show ?thesis by (simp add: upd_family_other)
  qed
qed

definition raw_write :: "(string \<times> bytes) list \<Rightarrow> write_op \<Rightarrow> bytes \<times> bytes option" where
  "raw_write ps w = (case w of (cf, k, ov) \<Rightarrow> (slice_copy (map_of ps cf) @ k, ov))"

lemma families_of_apply:
  assumes "prefixes_ok ps" and "\<forall>w\<in>set ws. map_of ps (fst w) \<noteq> None"
  shows "families_of ps (apply_raw m (map (raw_write ps) ws)) = apply_writes (families_of ps m) ws"
  using assms(2)
proof (induction ws arbitrary: m)
  case Nil
  show ?case by simp
next
  case (Cons w ws)
  obtain cf k ov where w: "w = (cf, k, ov)" by (cases w)
  with Cons.prems obtain pre where pre: "map_of ps cf = Some pre" by auto
  have raw: "apply_raw m (map (raw_write ps) (w # ws)) = apply_raw (m(pre @ k := ov)) (map (raw_write ps) ws)"
    by (simp add: w raw_write_def pre)
  have "families_of ps (apply_raw (m(pre @ k := ov)) (map (raw_write ps) ws)) =
      apply_writes (families_of ps (m(pre @ k := ov))) ws"
    using Cons.prems by (intro Cons.IH) simp
  then show ?case
    by (simp only: raw [unfolded w] w apply_writes_simps families_of_upd [OF assms(1) pre])
qed

subsection \<open>Iterators\<close>

lemma pebble_NewIterator_ok:
  assumes E: "engine_ok E V" and wf: "pebble_wf V p" and o: "\<not> pd_closed p"
    and cf: "map_of (pd_prefixes p) cf = Some pre"
  shows "\<exists>it. pebble_NewIterator E p cf = Inr it \<and> pebble_it_ok V it \<and>
     pebble_it_entries V it = sorted_entries (\<lambda>k. ev_map V (pd_db p) (pre @ k))"
proof -
  from wf o cf have op: "ev_open V (pd_db p)" and pre: "pre = cf_prefix cf"
    by (auto simp: pebble_wf_def)
  note fin = points_okD(1) [OF E op]
  from iters_okD(1) [OF E op] obtain iter where
    it: "pb_new_iter E (pd_db p) pre (cf_upper_bound cf) = Inr iter"
    "ev_entries V iter = sorted_entries (in_bounds pre (cf_upper_bound cf) (ev_map V (pd_db p)))"
    by blast
  define pit where "pit = \<lparr>pi_iter = iter, pi_prefix = pre, pi_prefixLen = length pre,
    pi_closed = False, pi_err = None\<rparr>"
  have "pebble_NewIterator E p cf = Inr pit"
    using o cf it(1) by (simp add: pebble_NewIterator_def pebble_cfPrefix_def pit_def)
  moreover have "finite (dom (in_bounds pre (cf_upper_bound cf) (ev_map V (pd_db p))))"
    by (rule finite_subset [OF _ fin]) (auto simp: in_bounds_def split: if_splits)
  then have "pebble_it_ok V pit"
    using family_entries(1) [OF fin, of cf] sorted_entries_keys(2,3)
    by (simp add: pebble_it_ok_def pit_def it(2) strict_sorted_iff pre)
  moreover have "pebble_it_entries V pit = sorted_entries (\<lambda>k. ev_map V (pd_db p) (pre @ k))"
    using family_entries(2) [OF fin] by (simp add: pebble_it_entries_def pit_def it(2) pre)
  ultimately show ?thesis by blast
qed

lemma pebble_scan_refines:
  assumes E: "engine_ok E V" and wf: "pebble_wf V p"
  shows "pebble_scan E p cf = fst (spec_exec (pebble_abs V p) (OpScan cf))"
proof (cases "pd_closed p \<or> map_of (pd_prefixes p) cf = None")
  case True
  then show ?thesis
    by (auto simp: pebble_scan_def pebble_NewIterator_def pebble_abs_def pebble_cfPrefix_def families_of_def)
next
  case False
  then obtain pre where o: "\<not> pd_closed p" and pre: "map_of (pd_prefixes p) cf = Some pre" by auto
  from pebble_NewIterator_ok [OF E wf o pre] obtain it where it: "pebble_NewIterator E p cf = Inr it"
    "pebble_it_ok V it" "pebble_it_entries V it = sorted_entries (\<lambda>k. ev_map V (pd_db p) (pre @ k))" by blast
  from cursor.scan_all [OF pebble_it_cursor [OF E] it(2)]
  have "pebble_scan E p cf = REntries (pebble_it_entries V it)"
    by (simp add: pebble_scan_def it(1))
  with o pre it(3) show ?thesis
    by (simp add: pebble_abs_def families_of_def)
qed

subsection \<open>Batches\<close>

lemma pebble_stages_refine:
  assumes E: "engine_ok E V" and "ev_live V (pk_batch b)" and "\<not> pk_closed b"
  shows "fst (run_ops (pebble_stage E p) b cs) = stage_errors (families_of (pd_prefixes p) m) cs \<and>
    ev_live V (pk_batch (snd (run_ops (pebble_stage E p) b cs))) \<and>
    \<not> pk_closed (snd (run_ops (pebble_stage E p) b cs)) \<and>
    ev_writes V (pk_batch (snd (run_ops (pebble_stage E p) b cs))) =
      ev_writes V (pk_batch b) @ map (raw_write (pd_prefixes p)) (staged (families_of (pd_prefixes p) m) cs)"
proof -
  let ?F = "families_of (pd_prefixes p) m"
  have one: "fst (pebble_stage E p b c) = (case spec_stage ?F c of Inl e \<Rightarrow> Some e | Inr _ \<Rightarrow> None) \<and>
      ev_live V (pk_batch (snd (pebble_stage E p b c))) \<and> \<not> pk_closed (snd (pebble_stage E p b c)) \<and>
      ev_writes V (pk_batch (snd (pebble_stage E p b c))) =
        ev_writes V (pk_batch b) @ (case spec_stage ?F c of Inl _ \<Rightarrow> [] | Inr w \<Rightarrow> [raw_write (pd_prefixes p) w])"
    if "ev_live V (pk_batch b)" "\<not> pk_closed b" for b c
    using that batches_okD [OF E]
    by (cases c)
      (auto simp: pebble_batch_Put_def pebble_batch_Delete_def pebble_cfPrefix_def raw_write_def
        prefixed_key_def case_prod_beta Let_def split: option.splits)
  show ?thesis
    using assms(2,3)
  proof (induction cs arbitrary: b)
    case Nil
    then show ?case by (simp add: stage_errors_def staged_def List.map_filter_simps)
  next
    case (Cons c cs)
    note o = one [OF Cons.prems, of c]
    from Cons.IH [of "snd (pebble_stage E p b c)"] o show ?case
      by (cases "spec_stage ?F c")
        (simp_all add: case_prod_beta Let_def stage_errors_def staged_def List.map_filter_simps)
  qed
qed

lemma pebble_write_refines:
  assumes E: "engine_ok E V" and wf: "pebble_wf V p"
  shows "fst (pebble_write E p cs) = fst (spec_exec (pebble_abs V p) (OpWrite cs))"
    and "pebble_abs V (snd (pebble_write E p cs)) = snd (spec_exec (pebble_abs V p) (OpWrite cs))"
    and "pebble_wf V (snd (pebble_write E p cs))"
proof -
  let ?ps = "pd_prefixes p" and ?m = "ev_map V (pd_db p)"
  let ?F = "families_of ?ps ?m"
  define b where "b = snd (run_ops (pebble_stage E p) (pebble_NewBatch E p) cs)"
  have nb: "ev_live V (pk_batch (pebble_NewBatch E p))" "\<not> pk_closed (pebble_NewBatch E p)"
    "ev_writes V (pk_batch (pebble_NewBatch E p)) = []"
    using batches_okD(1,2) [OF E] by (simp_all add: pebble_NewBatch_def)
  have st: "fst (run_ops (pebble_stage E p) (pebble_NewBatch E p) cs) = stage_errors ?F cs"
    "ev_live V (pk_batch b)" "\<not> pk_closed b"
    "ev_writes V (pk_batch b) = map (raw_write ?ps) (staged ?F cs)"
    using pebble_stages_refine [OF E nb(1,2), of p cs ?m] by (simp_all add: b_def nb(3))
  have eq: "pebble_write E p cs =
    (case pebble_batch_Commit E b p of (None, _, p') \<Rightarrow> (RBatch (stage_errors ?F cs), p')
      | (Some e, _, p') \<Rightarrow> (RErr e, p'))"
    using st(1) by (simp add: pebble_write_def b_def case_prod_beta Let_def split: option.splits)
  have "fst (pebble_write E p cs) = fst (spec_exec (pebble_abs V p) (OpWrite cs)) \<and>
    pebble_abs V (snd (pebble_write E p cs)) = snd (spec_exec (pebble_abs V p) (OpWrite cs)) \<and>
    pebble_wf V (snd (pebble_write E p cs))"
  proof (cases "pd_closed p")
    case True
    with st(3) wf show ?thesis by (simp add: eq pebble_batch_Commit_def pebble_abs_def)
  next
    case False
    with wf have op: "ev_open V (pd_db p)" and ok: "prefixes_ok ?ps" by (auto simp: pebble_wf_iff)
    note c = batches_okD(10-12) [OF E st(2) op]
    have "\<forall>w\<in>set (staged ?F cs). map_of ?ps (fst w) \<noteq> None"
      using staged_families [of _ ?F cs] by auto
    note ap = families_of_apply [OF ok this, of ?m]
    show ?thesis
      using False st(3) c ap ok st(4)
      by (simp add: eq pebble_batch_Commit_def case_prod_beta Let_def pebble_abs_def pebble_wf_iff)
  qed
  then show "fst (pebble_write E p cs) = fst (spec_exec (pebble_abs V p) (OpWrite cs))"
    and "pebble_abs V (snd (pebble_write E p cs)) = snd (spec_exec (pebble_abs V p) (OpWrite cs))"
    and "pebble_wf V (snd (pebble_write E p cs))"
    by simp_all
qed

subsection \<open>The store\<close>

lemmas pebble_op_defs = pebble_Get_def pebble_Put_def pebble_Delete_def pebble_Has_def pebble_Flush_def
  pebble_Close_def pebble_cfPrefix_def

lemma pebble_kv_store:
  assumes E: "engine_ok E V"
  shows "kv_store (pebble_exec E) (pebble_abs V) (pebble_wf V)"
proof unfold_locales
  fix p x
  assume wf: "pebble_wf V p"
  show "fst (pebble_exec E p x) = fst (spec_exec (pebble_abs V p) x)"
  proof (cases "pd_closed p")
    case True
    with pebble_write_refines(1) [OF E wf] pebble_scan_refines [OF E wf] show ?thesis
      by (cases x) (auto simp: pebble_op_defs pebble_abs_def spec_locate_def)
  next
    case False
    with wf have op: "ev_open V (pd_db p)" by (auto simp: pebble_wf_def)
    note P = points_okD(2,3,6,9) [OF E op] points_okD(12) [OF E points_okD(10) [OF E op]]
    note D = pebble_op_defs pebble_abs_def spec_locate_def families_of_def prefixed_key_def case_prod_beta Let_def P
    show ?thesis
    proof (cases x)
      case (OpGet cf key)
      with False show ?thesis by (auto simp: D split: option.splits)
    next
      case (OpPut cf key v)
      with False show ?thesis by (auto simp: D split: option.splits)
    next
      case (OpDelete cf key)
      with False show ?thesis by (auto simp: D split: option.splits)
    next
      case (OpHas cf key)
      with False show ?thesis by (auto simp: D split: option.splits)
    next
      case (OpWrite cs)
      with pebble_write_refines(1) [OF E wf] show ?thesis by simp
    next
      case (OpScan cf)
      with pebble_scan_refines [OF E wf] show ?thesis by simp
    next
      case OpFlush
      with False show ?thesis by (simp add: D)
    next
      case OpClose
      with False show ?thesis by (simp add: D)
    qed
  qed
  have "pebble_abs V (snd (pebble_exec E p x)) = snd (spec_exec (pebble_abs V p) x) \<and>
    pebble_wf V (snd (pebble_exec E p x))"
  proof (cases "\<exists>cs. x = OpWrite cs")
    case True
    with pebble_write_refines(2,3) [OF E wf] show ?thesis by auto
  next
    case not_write: False
    show ?thesis
    proof (cases "pd_closed p")
      case True
      with not_write wf show ?thesis
        by (cases x) (auto simp: pebble_op_defs pebble_abs_def spec_locate_def)
    next
      case False
      with wf have op: "ev_open V (pd_db p)" and ok: "prefixes_ok (pd_prefixes p)" by (auto simp: pebble_wf_iff)
      note D = pebble_op_defs pebble_abs_def pebble_wf_iff spec_locate_def families_of_eq_Some
        prefixed_key_def case_prod_beta Let_def
      note P = points_okD(4,5,7,8) [OF E op]
      show ?thesis
      proof (cases x)
        case (OpPut cf key v)
        with False ok op show ?thesis
          by (cases "map_of (pd_prefixes p) cf"; cases key)
            (simp_all add: D P families_of_upd [OF ok], simp_all add: families_of_def)
      next
        case (OpDelete cf key)
        with False ok op show ?thesis
          by (cases "map_of (pd_prefixes p) cf"; cases key)
            (simp_all add: D P families_of_upd [OF ok], simp_all add: families_of_def)
      next
        case (OpGet cf key)
        with False ok op show ?thesis
          by (auto simp: D split: option.splits)
      next
        case (OpHas cf key)
        with False ok op show ?thesis
          by (auto simp: D split: option.splits)
      next
        case (OpScan cf)
        with False ok op show ?thesis
          by (auto simp: D split: option.splits)
      next
        case OpFlush
        with False ok op show ?thesis by (simp add: D points_okD(10,11) [OF E op])
      next
        case OpClose
        with False ok show ?thesis by (simp add: D)
      next
        case (OpWrite cs)
        with not_write show ?thesis by blast
      qed
    qed
  qed
  then show "pebble_abs V (snd (pebble_exec E p x)) = snd (spec_exec (pebble_abs V p) x)"
    and "pebble_wf V (snd (pebble_exec E p x))" by simp_all
qed

section \<open>Opening a store\<close>

lemma build_prefixes_fold:
  assumes "map_of d = (\<lambda>c. if c \<in> A then Some (cf_prefix c) else None)"
  shows "map_of (fold (\<lambda>cf d. if cf \<noteq> DefaultColumnFamily then AList.update cf (cf_prefix cf) d else d) cfs d) =
    (\<lambda>c. if c \<in> A \<union> (set cfs - {DefaultColumnFamily}) then Some (cf_prefix c) else None)"
  using assms
proof (induction cfs arbitrary: d A)
  case Nil
  then show ?case by simp
next
  case (Cons cf cfs)
  show ?case
  proof (cases "cf = DefaultColumnFamily")
    case True
    with Cons show ?thesis by simp
  next
    case False
    have "map_of (AList.update cf (cf_prefix cf) d) = (\<lambda>c. if c \<in> insert cf A then Some (cf_prefix c) else None)"
      using Cons.prems by (auto simp: fun_eq_iff)
    from Cons.IH [OF this] False show ?thesis by (auto simp: fun_eq_iff)
  qed
qed

lemma build_prefixes_map:
  "map_of (build_prefixes cfs) cf = (if cf = DefaultColumnFamily \<or> cf \<in> set cfs then Some (cf_prefix cf) else None)"
proof -
  have "map_of [(DefaultColumnFamily, cf_prefix DefaultColumnFamily)] =
      (\<lambda>c. if c \<in> {DefaultColumnFamily} then Some (cf_prefix c) else None)"
    by (simp add: fun_eq_iff)
  from build_prefixes_fold [OF this, of cfs] show ?thesis
    by (simp add: build_prefixes_def)
qed

lemma nul_free_default [simp]: "nul_free DefaultColumnFamily"
  by (simp add: nul_free_def DefaultColumnFamily_def)

definition opened_families :: "'l db_option list \<Rightarrow> int \<Rightarrow> string list" where
  "opened_families opts n = dbc_ColumnFamilies (apply_options opts (db_DefaultConfig n))"

lemma pebble_Open_fields:
  assumes "pebble_Open E n path opts = Inr p"
  shows "\<not> pd_closed p" and "pd_prefixes p = build_prefixes (opened_families opts n)"
    and "pb_open E path (pebble_options_of (apply_options opts (db_DefaultConfig n))) = Inr (pd_db p)"
    and "pd_writeOpts p = dbc_SyncWrites (apply_options opts (db_DefaultConfig n))"
  using assms by (auto simp: pebble_Open_def Let_def opened_families_def split: sum.splits)

lemma pebble_Open_ok:
  assumes "pebble_Open E n path opts = Inr p" and "ev_open V (pd_db p)"
    and "\<forall>cf\<in>set (opened_families opts n). nul_free cf"
  shows "pebble_wf V p"
    and "pebble_abs V p = AOpen (\<lambda>cf. if cf = DefaultColumnFamily \<or> cf \<in> set (opened_families opts n)
      then Some (\<lambda>k. ev_map V (pd_db p) (cf_prefix cf @ k)) else None)"
proof -
  note f = pebble_Open_fields [OF assms(1)]
  have "pre = cf_prefix cf \<and> nul_free cf" if "map_of (pd_prefixes p) cf = Some pre" for cf pre
    using that assms(3) by (simp add: f build_prefixes_map split: if_splits) auto
  with assms(2) show "pebble_wf V p" by (simp add: pebble_wf_def)
  show "pebble_abs V p = AOpen (\<lambda>cf. if cf = DefaultColumnFamily \<or> cf \<in> set (opened_families opts n)
      then Some (\<lambda>k. ev_map V (pd_db p) (cf_prefix cf @ k)) else None)"
    by (simp add: f pebble_abs_def families_of_def build_prefixes_map fun_eq_iff)
qed

section \<open>After Close\<close>

text \<open>Staging never closes a batch, so the commit of a client's batch sees that the store is closed.\<close>

lemma pebble_stage_open: "\<not> pk_closed b \<Longrightarrow> \<not> pk_closed (snd (pebble_stage E p b c))"
  by (cases c) (auto simp: pebble_batch_Put_def pebble_batch_Delete_def case_prod_beta Let_def split: sum.splits)

lemma pebble_stages_open: "\<not> pk_closed b \<Longrightarrow> \<not> pk_closed (snd (run_ops (pebble_stage E p) b cs))"
  by (induction cs arbitrary: b) (simp_all add: case_prod_beta Let_def pebble_stage_open)

lemma pebble_exec_closed: "pd_closed p \<Longrightarrow> pebble_exec E p x = (RErr ErrClosed, p)"
  using pebble_stages_open [of "pebble_NewBatch E p" E p]
  by (cases x)
     (auto simp: pebble_Get_def pebble_Put_def pebble_Delete_def pebble_Has_def pebble_Flush_def pebble_Close_def
       pebble_scan_def pebble_NewIterator_def pebble_write_def pebble_batch_Commit_def pebble_NewBatch_def
       case_prod_beta Let_def)

lemma pebble_run_closed: "pd_closed p \<Longrightarrow> run_ops (pebble_exec E) p xs = (replicate (length xs) (RErr ErrClosed), p)"
  by (induction xs) (simp_all add: pebble_exec_closed)

end
