(* ===== verification/Store_Props.thy ===== *)
theory Store_Props
  imports Mock_Store Pebble_Store
begin

text \<open>
  The properties of the storage layer. Those of the production store are stated for any engine
  with the documented behaviour; their witnesses use \<open>mem_engine\<close>.
\<close>

section \<open>Examples\<close>

definition demo_db :: "mem_db pebble_db" where
  "demo_db =
     \<lparr>pd_db = (True, []), pd_prefixes = build_prefixes [''a''], pd_writeOpts = False, pd_path = ''d'', pd_closed = False\<rparr>"

abbreviation demo_opts :: "unit db_option list" where
  "demo_opts \<equiv> [db_WithColumnFamilies [''a'']]"

lemma demo_Open: "pebble_Open mem_engine 1 ''d'' demo_opts = Inr demo_db"
  by (simp add: pebble_Open_def mem_engine_def demo_db_def db_option_defs db_DefaultConfig_def)

lemma demo_families: "opened_families demo_opts 1 = [''a'']"
  by (simp add: opened_families_def db_option_defs)

lemma demo_open: "ev_open mem_view (pd_db demo_db)"
  by (simp add: demo_db_def mem_view_def)

lemma nul_free_a: "nul_free ''a''"
  by (simp add: nul_free_def)

lemma demo_wf: "pebble_wf mem_view demo_db"
  by (rule pebble_Open_ok(1) [OF demo_Open demo_open]) (simp add: demo_families nul_free_a)

lemma demo_empty: "ev_map mem_view (pd_db demo_db) = Map.empty"
  by (simp add: demo_db_def mem_view_def)

section \<open>Both stores implement the contract\<close>

text \<open>C2. For every sequence of client operations, batches and scans included, the in-memory store
  returns exactly the results of the abstract store that \<open>db.go\<close> describes, from the families it was
  created with: errors in the same precedence, no panic, and every scan loop ends.\<close>

theorem mock_refines_contract:
  "fst (run_ops mock_exec (NewMockStore cfs) xs) = fst (run_ops spec_exec (AOpen (empty_families cfs)) xs)"
  by (simp add: mock.run_results)

text \<open>C1. With an engine that behaves as documented and family names without NUL bytes, a store that
  \<open>Open\<close> returns gives, for every sequence of client operations, exactly the results of the abstract
  store whose families are \<open>default\<close> and the configured ones, each with the entries that the engine
  holds under its prefix.\<close>

theorem pebble_refines_contract:
  assumes "engine_ok E V" and "pebble_Open E n path opts = Inr p" and "ev_open V (pd_db p)"
    and "\<forall>cf \<in> set (opened_families opts n). nul_free cf"
  shows "fst (run_ops (pebble_exec E) p xs) =
     fst (run_ops spec_exec
       (AOpen (\<lambda>cf. if cf = DefaultColumnFamily \<or> cf \<in> set (opened_families opts n)
                    then Some (\<lambda>k. ev_map V (pd_db p) (cf_prefix cf @ k)) else None)) xs)"
  using simulation.run_results [OF kv_store.axioms [OF pebble_kv_store [OF assms(1)]] pebble_Open_ok(1) [OF assms(2-4)]]
  by (simp add: pebble_Open_ok(2) [OF assms(2-4)])

lemma pebble_refines_contract_witness:
  "fst (run_ops (pebble_exec mem_engine) demo_db [OpPut ''a'' (Some [1]) (Some [2]), OpGet ''a'' (Some [1])]) =
     [ROk, RBytes [2]]"
  using pebble_refines_contract [OF mem_engine_ok demo_Open demo_open, of "[OpPut ''a'' (Some [1]) (Some [2]), OpGet ''a'' (Some [1])]"]
  by (simp add: demo_families nul_free_a spec_locate_def upd_family_def)

section \<open>What a client may rely on\<close>



text \<open>In the production store a value that a get has returned stays: whatever the client does next,
  short of writing that key in that family or closing the store, a get returns the same bytes.\<close>

theorem pebble_value_persists:
  assumes "engine_ok E V" and "pebble_wf V p" and "pebble_Get E p cf (Some k) = Inr v"
    and "\<not> list_ex (touches cf k) xs"
  shows "pebble_Get E (snd (run_ops (pebble_exec E) p xs)) cf (Some k) = Inr v"
  using kv_store.get_persists [OF pebble_kv_store [OF assms(1)] assms(2) _ assms(4), of v] assms(3)
  by (simp split: sum.splits)

lemma pebble_value_persists_witness:
  "pebble_Get mem_engine (snd (run_ops (pebble_exec mem_engine)
     (demo_db\<lparr>pd_db := (True, [([97, 0, 1], [2])])\<rparr>) [OpPut ''default'' (Some [1]) None, OpFlush])) ''a'' (Some [1]) = Inr [2]"
proof -
  let ?p = "demo_db\<lparr>pd_db := (True, [([97, 0, 1], [2])])\<rparr>"
  have wf: "pebble_wf mem_view ?p" using demo_wf by (simp add: pebble_wf_def mem_view_def demo_db_def)
  have "pebble_Get mem_engine ?p ''a'' (Some [1]) = Inr [2]" by code_simp
  from pebble_value_persists [OF mem_engine_ok wf this] show ?thesis by (simp del: run_ops.simps)
qed

text \<open>Once the production store is closed every further operation returns \<open>ErrClosed\<close>, whatever the
  engine does: this holds for any engine, documented behaviour or not, and even when \<open>Close\<close> itself
  returned an error of the engine. The engine is not used any more, so nothing changes.\<close>

theorem pebble_closed_forever:
  "run_ops (pebble_exec E) (snd (pebble_Close E p)) xs =
     (replicate (length xs) (RErr ErrClosed), snd (pebble_Close E p))"
proof -
  have "pd_closed (snd (pebble_Close E p))"
    by (simp add: pebble_Close_def case_prod_beta Let_def)
  then show ?thesis by (rule pebble_run_closed)
qed

text \<open>C22. Committing a batch on the production store has the effect of its staged calls one after the
  other as single operations, those that were refused left out: the resulting contents are the same,
  and each staging call returned the error that the single operation returns.\<close>

theorem pebble_batch_as_sequence:
  assumes "engine_ok E V" and "pebble_wf V p" and "pebble_write E p cs = (RBatch errs, p')"
  shows "pebble_abs V p' = pebble_abs V (snd (run_ops (pebble_exec E) p (map single_op cs))) \<and>
     map result_of errs = fst (run_ops (pebble_exec E) p (map single_op cs))"
  using kv_store.write_as_sequence [OF pebble_kv_store [OF assms(1)] assms(2), of cs errs] assms(3) by simp

lemma pebble_batch_as_sequence_witness:
  "fst (run_ops (pebble_exec mem_engine) demo_db
     (map single_op [BatchPut ''a'' (Some [1]) (Some [2]), BatchDelete ''x'' (Some [1])])) =
   [ROk, RErr (ErrColumnFamilyNotFound ''x'')]"
proof -
  let ?cs = "[BatchPut ''a'' (Some [1]) (Some [2]), BatchDelete ''x'' (Some [1])]"
  have "fst (pebble_write mem_engine demo_db ?cs) = RBatch [None, Some (ErrColumnFamilyNotFound ''x'')]"
    by code_simp
  then obtain p' where "pebble_write mem_engine demo_db ?cs = (RBatch [None, Some (ErrColumnFamilyNotFound ''x'')], p')"
    by (cases "pebble_write mem_engine demo_db ?cs") simp
  from pebble_batch_as_sequence [OF mem_engine_ok demo_wf this] show ?thesis by simp
qed

text \<open>C21. A batch of the in-memory store never panics, however its staging calls, its commits and its
  close are interleaved with other operations of the store, \<open>Reset\<close> and \<open>Close\<close> included: the
  families that a staged write names still exist when it is applied.\<close>

theorem mock_batch_never_panics:
  "\<exists>m b. session_run (NewMockStore cfs, mock_NewBatch) xs = Next (m, b) \<and> mock_wf m"
proof -
  have "session_ok (NewMockStore cfs, mock_NewBatch)"
    by (simp add: session_ok_def mock_NewBatch_def)
  from session_run_ok [OF this, of xs] show ?thesis by (auto simp: session_ok_def)
qed

section \<open>Iterators\<close>

text \<open>C20. An iterator of the in-memory store reads a snapshot of its family in key order: the loop from
  \<open>SeekToFirst\<close> ends and yields every entry once, the loop from \<open>SeekToLast\<close> the same in reverse, and
  the loop from \<open>Seek(t)\<close> exactly the entries with keys from \<open>t\<close> on.\<close>

theorem mock_iterator_scans:
  assumes "mock_wf m" and "mock_NewIterator m cf = Inr it"
  shows "\<exists>b. map_of (ms_data m) cf = Some b \<and>
     (let es = sorted_entries (bucket_abs b)
      in collect mock_it_Valid mock_it_Key mock_it_Value mock_it_Next [] (mock_it_SeekToFirst it) = Some es \<and>
         collect mock_it_Valid mock_it_Key mock_it_Value mock_it_Prev [] (mock_it_SeekToLast it) = Some (rev es) \<and>
         collect mock_it_Valid mock_it_Key mock_it_Value mock_it_Next [] (mock_it_Seek it t) =
           Some (filter (\<lambda>e. slice_copy t \<le> fst e) es))"
proof -
  note it = mock_NewIterator_entries [OF assms]
  from it(3) obtain b where b: "map_of (ms_data m) cf = Some b" "it_entries it = sorted_entries (bucket_abs b)" by blast
  with mock_it.scan_all [OF it(1)] mock_it.scan_all_backward [OF it(1)] mock_it.scan_from [OF it(1), of t]
  show ?thesis by simp
qed

lemma mock_iterator_scans_witness:
  "collect mock_it_Valid mock_it_Key mock_it_Value mock_it_Next []
     (mock_it_SeekToFirst \<lparr>it_entries = [], it_pos = -1\<rparr>) = Some []"
proof -
  have "mock_NewIterator (NewMockStore []) ''default'' = Inr \<lparr>it_entries = [], it_pos = -1\<rparr>"
    and d: "map_of (ms_data (NewMockStore [])) ''default'' = Some []"
    by (simp_all add: mock_NewIterator_def NewMockStore_def DefaultColumnFamily_def)
  moreover have "sorted_entries (bucket_abs []) = []" by (simp add: sorted_entries_def bucket_abs_def)
  ultimately show ?thesis
    using mock_iterator_scans [of "NewMockStore []" "''default''" "\<lparr>it_entries = [], it_pos = -1\<rparr>" None]
    by (simp add: Let_def)
qed

text \<open>C19. An iterator of the production store shows its family only, with the prefix stripped: its
  loops end and yield, in key order, reverse order, or from a target on, exactly the pairs that a get
  in that family returns.\<close>

theorem pebble_iterator_scans:
  assumes "engine_ok E V" and "pebble_wf V p" and "\<not> pd_closed p" and "map_of (pd_prefixes p) cf = Some pre"
  shows "\<exists>it. pebble_NewIterator E p cf = Inr it \<and>
     (let es = sorted_entries (\<lambda>k. case pebble_Get E p cf (Some k) of Inr v \<Rightarrow> Some v | Inl _ \<Rightarrow> None);
          scan = (\<lambda>step. collect (pebble_it_Valid E) (pebble_it_Key E) (\<lambda>it. fst (pebble_it_Value E it)) step [])
      in scan (pebble_it_Next E) (pebble_it_SeekToFirst E it) = Some es \<and>
         scan (pebble_it_Prev E) (pebble_it_SeekToLast E it) = Some (rev es) \<and>
         scan (pebble_it_Next E) (pebble_it_Seek E it t) = Some (filter (\<lambda>e. slice_copy t \<le> fst e) es))"
proof -
  from pebble_NewIterator_ok [OF assms] obtain it where it: "pebble_NewIterator E p cf = Inr it"
    "pebble_it_ok V it" "pebble_it_entries V it = sorted_entries (\<lambda>k. ev_map V (pd_db p) (pre @ k))" by blast
  have op: "ev_open V (pd_db p)" using assms(2,3) by (simp add: pebble_wf_def)
  have "(\<lambda>k. case pebble_Get E p cf (Some k) of Inr v \<Rightarrow> Some v | Inl _ \<Rightarrow> None) = (\<lambda>k. ev_map V (pd_db p) (pre @ k))"
    using assms(3,4) points_okD(2) [OF assms(1) op]
    by (auto simp: fun_eq_iff pebble_Get_def pebble_cfPrefix_def prefixed_key_def split: option.splits)
  with it cursor.scan_all [OF pebble_it_cursor [OF assms(1)] it(2)]
    cursor.scan_all_backward [OF pebble_it_cursor [OF assms(1)] it(2)]
    cursor.scan_from [OF pebble_it_cursor [OF assms(1)] it(2), of t]
  show ?thesis by (simp add: Let_def)
qed

lemma pebble_iterator_scans_witness: "\<exists>it. pebble_NewIterator mem_engine demo_db ''a'' = Inr it"
proof -
  have "\<not> pd_closed demo_db" "map_of (pd_prefixes demo_db) ''a'' = Some (cf_prefix ''a'')"
    by (simp_all add: demo_db_def build_prefixes_map)
  from pebble_iterator_scans [OF mem_engine_ok demo_wf this, of None] show ?thesis by blast
qed

section \<open>Column families\<close>

text \<open>C23. Families are kept apart by their prefixes. The bounds that \<open>NewIterator\<close> gives the engine
  select exactly the storage keys with the family's prefix; and for names without NUL bytes two
  storage keys are equal only when both the family and the key are.\<close>

theorem families_are_separate:
  assumes "nul_free cf" and "nul_free cf'"
  shows "(cf_prefix cf \<le> key \<and> key < cf_upper_bound cf \<longleftrightarrow> prefix (cf_prefix cf) key) \<and>
     (prefixed_key (cf_prefix cf) a = prefixed_key (cf_prefix cf') b \<longleftrightarrow> cf = cf' \<and> slice_copy a = slice_copy b) \<and>
     (cf_prefix cf \<le> prefixed_key (cf_prefix cf') b \<and> prefixed_key (cf_prefix cf') b < cf_upper_bound cf \<longleftrightarrow> cf = cf')"
  using cf_range_iff_prefix [of cf] prefixed_key_cf_inject [OF assms]
    cf_prefix_disjoint [OF assms, of "prefixed_key (cf_prefix cf') b"] by auto

lemma families_are_separate_witness:
  "prefixed_key (cf_prefix ''a'') (Some [98, 0]) \<noteq> prefixed_key (cf_prefix ''ab'') (Some [])"
  using families_are_separate [of "''a''" "''ab''"] by (simp add: nul_free_def)

text \<open>C24. A NUL byte in a family name breaks the separation, and \<open>Open\<close> accepts such a name: with the
  families \<open>a\<close> and \<open>a\<close> NUL \<open>b\<close>, a value that is put in the second one can be read in the first.\<close>

theorem nul_name_leaks:
  "\<exists>p p'. pebble_Open mem_engine 1 ''d'' [db_WithColumnFamilies [''a'', [CHR ''a'', CHR 0x00, CHR ''b'']] :: unit db_option] = Inr p \<and>
     pebble_Get mem_engine p ''a'' (Some [98, 0, 1]) = Inl ErrKeyNotFound \<and>
     pebble_Put mem_engine p [CHR ''a'', CHR 0x00, CHR ''b''] (Some [1]) (Some [7]) = (None, p') \<and>
     pebble_Get mem_engine p' ''a'' (Some [98, 0, 1]) = Inr [7]"
proof -
  let ?b = "[CHR ''a'', CHR 0x00, CHR ''b'']"
  let ?p = "\<lparr>pd_db = (True, []), pd_prefixes = build_prefixes [''a'', ?b], pd_writeOpts = False,
    pd_path = ''d'', pd_closed = False\<rparr> :: mem_db pebble_db"
  have "pebble_Open mem_engine 1 ''d'' [db_WithColumnFamilies [''a'', ?b] :: unit db_option] = Inr ?p"
    by (simp add: pebble_Open_def mem_engine_def db_option_defs db_DefaultConfig_def)
  moreover have "pebble_Get mem_engine ?p ''a'' (Some [98, 0, 1]) = Inl ErrKeyNotFound" by code_simp
  moreover have "fst (pebble_Put mem_engine ?p ?b (Some [1]) (Some [7])) = None"
    "pebble_Get mem_engine (snd (pebble_Put mem_engine ?p ?b (Some [1]) (Some [7]))) ''a'' (Some [98, 0, 1]) = Inr [7]"
    by code_simp+
  ultimately show ?thesis by (metis prod.collapse)
qed

section \<open>The in-memory store only\<close>

text \<open>After any operations that leave the in-memory store open, \<open>Reset\<close> makes it indistinguishable
  from a new store with the same families.\<close>

theorem mock_Reset_is_fresh:
  assumes "m = snd (run_ops mock_exec (NewMockStore cfs) xs)" and "\<not> ms_closed m"
  shows "fst (run_ops mock_exec (mock_Reset m) ys) = fst (run_ops mock_exec (NewMockStore cfs) ys)"
proof -
  have wf: "mock_wf m" and abs: "mock_abs m = snd (run_ops spec_exec (AOpen (empty_families cfs)) xs)"
    using assms(1) by (simp_all add: mock.run_inv mock.run_abs)
  from assms(2) obtain F where F: "mock_abs m = AOpen F" by (simp add: mock_abs_def)
  have "dom F = dom (empty_families cfs)"
    by (rule run_spec_dom [where xs = xs]) (simp add: F [symmetric] abs)
  then have "(\<lambda>cf. map_option (\<lambda>_. Map.empty) (F cf)) = empty_families cfs"
    by (auto simp: empty_families_def fun_eq_iff dom_def split: if_splits)
  with F wf show ?thesis
    by (simp add: mock.run_results mock_Reset_wf mock_Reset_abs)
qed

lemma mock_Reset_is_fresh_witness:
  "fst (run_ops mock_exec (mock_Reset (snd (run_ops mock_exec (NewMockStore [''a'']) [OpPut ''a'' (Some [1]) None])))
     [OpScan ''a'']) = [REntries []]"
proof -
  have "\<not> ms_closed (snd (run_ops mock_exec (NewMockStore [''a'']) [OpPut ''a'' (Some [1]) None]))" by code_simp
  from mock_Reset_is_fresh [OF refl this, of "[OpScan ''a'']"] show ?thesis
    by (simp add: mock.run_results empty_families_def sorted_entries_def del: mock_exec.simps run_ops.simps(2))
       (simp add: sorted_entries_def)
qed

text \<open>On an open store with the family, \<open>Len\<close> is the number of entries that a scan yields; it is -1
  exactly when a scan fails.\<close>

theorem mock_Len_counts_scan:
  assumes "mock_wf m"
  shows "(case mock_scan m cf of REntries es \<Rightarrow> mock_Len m cf = int (length es) | r \<Rightarrow> (\<exists>e. r = RErr e) \<and> mock_Len m cf = -1)"
proof (cases "ms_closed m \<or> map_of (ms_data m) cf = None")
  case True
  then show ?thesis by (auto simp: mock_scan_refines [OF assms] mock_abs_def mock_Len_def data_abs_def)
next
  case False
  then obtain bk where bk: "map_of (ms_data m) cf = Some bk" "\<not> ms_closed m" by auto
  then have A: "mock_abs m = AOpen (data_abs (ms_data m))" "data_abs (ms_data m) cf = Some (bucket_abs bk)"
    by (simp_all add: mock_abs_def data_abs_Some)
  then show ?thesis
    using mock_Len_card [OF assms A] by (simp add: mock_scan_refines [OF assms] sorted_entries_def del: bucket_abs_apply)
qed

lemma mock_Len_counts_scan_witness: "mock_Len (NewMockStore [''a'']) ''b'' = -1"
  using mock_Len_counts_scan [OF NewMockStore_ok(1), of "[''a'']" "''b''"]
  by (simp add: mock_scan_def mock_NewIterator_def NewMockStore_def DefaultColumnFamily_def)

section \<open>Where the stores differ\<close>

text \<open>\<open>NewBatch\<close> and the staging calls do not return \<open>ErrClosed\<close> after \<open>Close\<close>, and the two stores
  differ there: on the in-memory store every staging call with a key reports an unknown family, since
  \<open>Close\<close> drops the families, while the production store stages the write without an error.\<close>

theorem batches_after_close:
  "mock_batch_Put (snd (mock_Close (NewMockStore cfs))) mock_NewBatch cf (Some k) v =
     (Some (ErrColumnFamilyNotFound cf), mock_NewBatch) \<and>
   (let p = snd (pebble_Close mem_engine demo_db)
    in pd_closed p \<and> fst (pebble_batch_Put mem_engine p (pebble_NewBatch mem_engine p) ''default'' (Some k) v) = None)"
  by (simp add: mock_batch_Put_def mock_Close_def NewMockStore_def mock_NewBatch_def pebble_Close_def demo_db_def mem_engine_def
      pebble_batch_Put_def pebble_NewBatch_def pebble_cfPrefix_def build_prefixes_map DefaultColumnFamily_def)

end
