(* ===== verification/Client_Config.thy ===== *)
theory Client_Config
  imports Db_Options
begin

text \<open>
  The configuration of the P2P client (\<open>pkg/btcclient/config.go\<close>), its errors
  (\<open>errors.go\<close>) and the listener struct of \<open>handlers.go\<close>. Durations are nanoseconds
  (\<open>int64\<close> in Go, integers here: they are only compared with zero and passed on); a failure
  count is an \<open>int32\<close>, kept as a 32-bit word read as signed.
\<close>

section \<open>Errors\<close>

datatype client_error =
    ErrClientAlreadyStarted
  | ErrClientNotStarted
  | ErrPeerAlreadyExists
  | ErrPeerNotFound
  | ErrMaxPeersReached
  | ErrStopTimeout
  | ErrInvalidConfig string
  | PeerConnectionError string string

text \<open>
  The texts of \<open>Error()\<close>. \<open>PeerConnectionError\<close> holds the address and the text of the wrapped
  error, which is what \<open>%v\<close> prints; \<open>ErrInvalidConfig\<close> holds what \<open>validate\<close> adds with \<open>%w: ...\<close>.
\<close>

fun client_Error :: "client_error \<Rightarrow> string" where
  "client_Error ErrClientAlreadyStarted = ''btcclient: client already started''"
| "client_Error ErrClientNotStarted = ''btcclient: client not started''"
| "client_Error ErrPeerAlreadyExists = ''btcclient: peer already exists''"
| "client_Error ErrPeerNotFound = ''btcclient: peer not found''"
| "client_Error ErrMaxPeersReached = ''btcclient: max peer limit reached''"
| "client_Error ErrStopTimeout = ''btcclient: graceful stop timeout exceeded''"
| "client_Error (ErrInvalidConfig what) = ''btcclient: invalid configuration: '' @ what"
| "client_Error (PeerConnectionError address err) =
     ''btcclient: peer '' @ address @ '' connection failed: '' @ err"

text \<open>The error that \<open>errors.Unwrap\<close> finds inside, by its text: \<open>%w\<close> wraps the sentinel.\<close>

fun client_Unwrap :: "client_error \<Rightarrow> string option" where
  "client_Unwrap (PeerConnectionError address err) = Some err"
| "client_Unwrap (ErrInvalidConfig what) = Some ''btcclient: invalid configuration''"
| "client_Unwrap _ = None"

text \<open>The fields of \<open>chaincfg.Params\<close> that the repository reads.\<close>

record chain_params =
  cp_Name :: string
  cp_DefaultPort :: string
  cp_DNSSeeds :: "string list"
  cp_GenesisHash :: bytes

text \<open>Which callbacks are set; what they do is the client's code.\<close>

record listeners =
  ml_OnHeaders :: bool
  ml_OnInv :: bool
  ml_OnBlock :: bool
  ml_OnTx :: bool
  ml_OnAddr :: bool
  ml_OnPeerConnected :: bool
  ml_OnPeerDisconnected :: bool

definition no_listeners :: listeners where
  "no_listeners =
     \<lparr>ml_OnHeaders = False, ml_OnInv = False, ml_OnBlock = False, ml_OnTx = False, ml_OnAddr = False,
      ml_OnPeerConnected = False, ml_OnPeerDisconnected = False\<rparr>"

section \<open>Config\<close>

record 'l client_config =
  cc_ChainParams :: "chain_params option"
  cc_MaxPeers :: int
  cc_MaxFailureCount :: "32 word"
  cc_HealthCheckInterval :: int
  cc_ReconnectDelay :: int
  cc_ConnectionTimeout :: int
  cc_Listeners :: "listeners option"
  cc_Logger :: "'l option"

definition second :: int where
  "second = 1000000000"

text \<open>\<open>chaincfg.MainNetParams\<close> is a parameter.\<close>

definition client_DefaultConfig :: "chain_params \<Rightarrow> 'l client_config" where
  "client_DefaultConfig mainNet =
     \<lparr>cc_ChainParams = Some mainNet,
      cc_MaxPeers = 30,
      cc_MaxFailureCount = 10,
      cc_HealthCheckInterval = 30 * second,
      cc_ReconnectDelay = 5 * second,
      cc_ConnectionTimeout = 10 * second,
      cc_Listeners = Some no_listeners,
      cc_Logger = None\<rparr>"

text \<open>\<open>validate\<close> rejects a config or returns it, with nil listeners replaced by empty ones.\<close>

definition client_validate :: "'l client_config \<Rightarrow> client_error + 'l client_config" where
  "client_validate c =
     (if cc_ChainParams c = None then Inl (ErrInvalidConfig ''ChainParams must not be nil'')
      else if cc_MaxPeers c \<le> 0 then 
        Inl (ErrInvalidConfig (''MaxPeers must be positive, got '' @ show_int (cc_MaxPeers c)))
      else if sint (cc_MaxFailureCount c) \<le> 0 then 
        Inl (ErrInvalidConfig (''MaxFailureCount must be positive, got '' @ show_int (sint (cc_MaxFailureCount c))))
      else if cc_HealthCheckInterval c \<le> 0 then Inl (ErrInvalidConfig ''HealthCheckInterval must be positive'')
      else if cc_ReconnectDelay c \<le> 0 then Inl (ErrInvalidConfig ''ReconnectDelay must be positive'')
      else if cc_ConnectionTimeout c \<le> 0 then Inl (ErrInvalidConfig ''ConnectionTimeout must be positive'')
      else if cc_Listeners c = None then Inr (c\<lparr>cc_Listeners := Some no_listeners\<rparr>)
      else Inr c)"

type_synonym 'l client_option = "'l client_config \<Rightarrow> 'l client_config"

definition client_WithChainParams :: "chain_params option \<Rightarrow> 'l client_option" where
  "client_WithChainParams params = (\<lambda>c. c\<lparr>cc_ChainParams := params\<rparr>)"

definition client_WithMaxPeers :: "int \<Rightarrow> 'l client_option" where
  "client_WithMaxPeers n = (\<lambda>c. c\<lparr>cc_MaxPeers := n\<rparr>)"

definition client_WithMaxFailureCount :: "32 word \<Rightarrow> 'l client_option" where
  "client_WithMaxFailureCount n = (\<lambda>c. c\<lparr>cc_MaxFailureCount := n\<rparr>)"

definition client_WithHealthCheckInterval :: "int \<Rightarrow> 'l client_option" where
  "client_WithHealthCheckInterval d = (\<lambda>c. c\<lparr>cc_HealthCheckInterval := d\<rparr>)"

definition client_WithReconnectDelay :: "int \<Rightarrow> 'l client_option" where
  "client_WithReconnectDelay d = (\<lambda>c. c\<lparr>cc_ReconnectDelay := d\<rparr>)"

definition client_WithConnectionTimeout :: "int \<Rightarrow> 'l client_option" where
  "client_WithConnectionTimeout d = (\<lambda>c. c\<lparr>cc_ConnectionTimeout := d\<rparr>)"

definition client_WithListeners :: "listeners option \<Rightarrow> 'l client_option" where
  "client_WithListeners l = (\<lambda>c. c\<lparr>cc_Listeners := l\<rparr>)"

definition client_WithLogger :: "'l option \<Rightarrow> 'l client_option" where
  "client_WithLogger l = (\<lambda>c. c\<lparr>cc_Logger := l\<rparr>)"

lemmas client_option_defs = client_WithChainParams_def client_WithMaxPeers_def
  client_WithMaxFailureCount_def client_WithHealthCheckInterval_def client_WithReconnectDelay_def
  client_WithConnectionTimeout_def client_WithListeners_def client_WithLogger_def

text \<open>What a validated configuration guarantees.\<close>

definition client_config_ok :: "'l client_config \<Rightarrow> bool" where
  "client_config_ok c \<longleftrightarrow> cc_ChainParams c \<noteq> None \<and> 0 < cc_MaxPeers c \<and> 0 < sint (cc_MaxFailureCount c) \<and>
     0 < cc_HealthCheckInterval c \<and> 0 < cc_ReconnectDelay c \<and> 0 < cc_ConnectionTimeout c"

lemma client_validate_iff:
  "(\<exists>c'. client_validate c = Inr c') \<longleftrightarrow> client_config_ok c"
  by (auto simp: client_validate_def client_config_ok_def)

lemma client_validate_result:
  assumes "client_validate c = Inr c'"
  shows "client_config_ok c'" and "cc_Listeners c' \<noteq> None"
    and "cc_Listeners c \<noteq> None \<Longrightarrow> c' = c"
    and "cc_MaxPeers c' = cc_MaxPeers c" and "cc_MaxFailureCount c' = cc_MaxFailureCount c"
  using assms by (auto simp: client_validate_def client_config_ok_def split: if_splits)

lemma client_DefaultConfig_ok: "client_validate (client_DefaultConfig m) = Inr (client_DefaultConfig m)"
  by (simp add: client_validate_def client_DefaultConfig_def second_def)

end
