(* ===== verification/Managed_Peer.thy ===== *)
theory Managed_Peer
  imports Client_Config
begin

text \<open>
  \<open>pkg/btcclient/peer.go\<close>: the status type and the struct \<open>ManagedPeer\<close> with its accessors,
  each a critical section of the peer's own mutex. The underlying \<open>*peer.Peer\<close> is the number of
  a connection (nil is \<open>None\<close>), and \<open>mp.ctx.Err() != nil\<close> is the flag \<open>mp_cancelled\<close>.
\<close>

section \<open>Status\<close>

type_synonym peer_status = int

definition PeerStatusDisconnected :: peer_status where "PeerStatusDisconnected = 0"
definition PeerStatusConnecting :: peer_status where "PeerStatusConnecting = 1"
definition PeerStatusConnected :: peer_status where "PeerStatusConnected = 2"
definition PeerStatusUnhealthy :: peer_status where "PeerStatusUnhealthy = 3"

lemmas PeerStatus_defs = PeerStatusDisconnected_def PeerStatusConnecting_def
  PeerStatusConnected_def PeerStatusUnhealthy_def

definition PeerStatus_String :: "peer_status \<Rightarrow> string" where
  "PeerStatus_String ps =
     (if ps = PeerStatusDisconnected then ''disconnected''
      else if ps = PeerStatusConnecting then ''connecting''
      else if ps = PeerStatusConnected then ''connected''
      else if ps = PeerStatusUnhealthy then ''unhealthy''
      else ''unknown'')"

section \<open>ManagedPeer\<close>

record managed_peer =
  mp_address :: string
  mp_peer :: "nat option"
  mp_status :: peer_status
  mp_failureCount :: "32 word"
  mp_cancelled :: bool

text \<open>The read accessors.\<close>

definition Address :: "'a managed_peer_scheme \<Rightarrow> string" where
  "Address mp = mp_address mp"

definition Status :: "'a managed_peer_scheme \<Rightarrow> peer_status" where
  "Status mp = mp_status mp"

definition FailureCount :: "'a managed_peer_scheme \<Rightarrow> 32 word" where
  "FailureCount mp = mp_failureCount mp"

definition Peer :: "'a managed_peer_scheme \<Rightarrow> nat option" where
  "Peer mp = mp_peer mp"

lemmas accessor_defs [simp] = Address_def Status_def FailureCount_def Peer_def

text \<open>The mutators.\<close>

definition setStatus :: "peer_status \<Rightarrow> 'a managed_peer_scheme \<Rightarrow> 'a managed_peer_scheme" where
  "setStatus s mp = mp\<lparr>mp_status := s\<rparr>"

text \<open>\<open>incrementFailure\<close> returns the new value, which its caller ignores; the addition wraps.\<close>

definition incrementFailure :: "'a managed_peer_scheme \<Rightarrow> 32 word \<times> 'a managed_peer_scheme" where
  "incrementFailure mp = (mp_failureCount mp + 1, mp\<lparr>mp_failureCount := mp_failureCount mp + 1\<rparr>)"

definition resetFailures :: "'a managed_peer_scheme \<Rightarrow> 'a managed_peer_scheme" where
  "resetFailures mp = mp\<lparr>mp_failureCount := 0\<rparr>"

definition clearPeer :: "'a managed_peer_scheme \<Rightarrow> 'a managed_peer_scheme" where
  "clearPeer mp = mp\<lparr>mp_peer := None\<rparr>"

definition setPeer :: "nat \<Rightarrow> 'a managed_peer_scheme \<Rightarrow> 'a managed_peer_scheme" where
  "setPeer p mp = mp\<lparr>mp_peer := Some p\<rparr>"

definition cancelPeer :: "'a managed_peer_scheme \<Rightarrow> 'a managed_peer_scheme" where
  "cancelPeer mp = mp\<lparr>mp_cancelled := True\<rparr>"

lemmas managed_peer_defs = setStatus_def incrementFailure_def resetFailures_def clearPeer_def
  setPeer_def cancelPeer_def

text \<open>Below a positive \<open>int32\<close> bound, adding one to the counter does not wrap.\<close>

lemma sint_plus_one:
  fixes a m :: "32 word"
  assumes "sint a < sint m"
  shows "sint (a + 1) = sint a + 1"
proof -
  have "sint m < 2 ^ 31"
    using sint_lt [of m] by simp
  moreover have "- (2 ^ 31) \<le> sint a"
    using sint_ge [of a] by simp
  ultimately show ?thesis
    using assms by (simp add: sint_word_ariths signed_take_bit_int_eq_self)
qed

end
