(* ===== verification/Peer_Manager.thy ===== *)
theory Peer_Manager
  imports Managed_Peer
begin

text \<open>
  \<open>pkg/btcclient/manager.go\<close> and \<open>handlers.go\<close>: the manager's state and its operations. The
  managed peers are heap objects: \<open>pm_objs\<close> lists them in order of creation, a pointer is an
  index into it, and the registry \<open>pm_peers\<close> maps an address to a pointer. An object outlives its
  registration, since its connection loop keeps the pointer. Each object carries the program
  counter of its \<open>connectionLoop\<close> goroutine; a step of the loop is one statement of the source,
  which takes at most one lock. \<open>pm_conns\<close> tells which connections are still up, and
  \<open>pm_trace\<close> records the callbacks and messages in order.
\<close>

section \<open>State\<close>

text \<open>The program points of \<open>connectionLoop\<close> and of \<open>dial\<close>, which it calls.\<close>

datatype loop_pc =
    L_Top
  | L_Connecting
  | L_Dial
  | L_NewPeer
  | L_SetPeer
  | L_DialFailed
  | L_IncFailure
  | L_CheckFailure
  | L_Evict
  | L_Connected
  | L_Reset
  | L_OnConnected
  | L_GetAddr
  | L_Block
  | L_Disconnected
  | L_Clear
  | L_OnDisconnected
  | L_Wait
  | L_Exited

text \<open>\<open>po_parent\<close>: the peer's context derives from one that its creator may cancel.\<close>

record peer_obj = managed_peer +
  po_pc :: loop_pc
  po_parent :: bool

datatype event =
    EvConnected nat
  | EvDisconnected nat
  | EvGetAddr nat
  | EvHeaders nat
  | EvInv nat
  | EvBlock nat
  | EvTx nat
  | EvAddr nat

text \<open>Where \<open>BtcClient.Stop\<close> is, while it holds the client's lock.\<close>

datatype stop_phase = StopIdle | StopCancelling | StopWaiting

record manager =
  pm_chainParams :: "chain_params option"
  pm_peers :: "(string \<times> nat) list"
  pm_objs :: "peer_obj list"
  pm_conns :: "bool list"
  pm_done :: bool
  pm_wg :: int
  pm_started :: bool
  pm_maxPeers :: int
  pm_maxFailureCount :: "32 word"
  pm_healthCheckInterval :: int
  pm_reconnectDelay :: int
  pm_connectionTimeout :: int
  pm_listeners :: listeners
  pm_health :: int
  pm_stop :: stop_phase
  pm_trace :: "event list"

definition newPeerManager :: "'l client_config \<Rightarrow> manager" where
  "newPeerManager cfg =
     \<lparr>pm_chainParams = cc_ChainParams cfg,
      pm_peers = [],
      pm_objs = [],
      pm_conns = [],
      pm_done = False,
      pm_wg = 0,
      pm_started = False,
      pm_maxPeers = cc_MaxPeers cfg,
      pm_maxFailureCount = cc_MaxFailureCount cfg,
      pm_healthCheckInterval = cc_HealthCheckInterval cfg,
      pm_reconnectDelay = cc_ReconnectDelay cfg,
      pm_connectionTimeout = cc_ConnectionTimeout cfg,
      pm_listeners = (case cc_Listeners cfg of None \<Rightarrow> no_listeners | Some l \<Rightarrow> l),
      pm_health = 0,
      pm_stop = StopIdle,
      pm_trace = []\<rparr>"

definition upd_obj :: "nat \<Rightarrow> (peer_obj \<Rightarrow> peer_obj) \<Rightarrow> manager \<Rightarrow> manager" where
  "upd_obj i f pm = pm\<lparr>pm_objs := (pm_objs pm)[i := f (pm_objs pm ! i)]\<rparr>"

definition emit :: "bool \<Rightarrow> event \<Rightarrow> manager \<Rightarrow> manager" where
  "emit is_set ev pm = (if is_set then pm\<lparr>pm_trace := pm_trace pm @ [ev]\<rparr> else pm)"

text \<open>\<open>p.Disconnect()\<close> on a peer that is not nil.\<close>

definition disconnect :: "nat option \<Rightarrow> manager \<Rightarrow> manager" where
  "disconnect p pm = (case p of None \<Rightarrow> pm | Some c \<Rightarrow> pm\<lparr>pm_conns := (pm_conns pm)[c := False]\<rparr>)"

section \<open>The registry\<close>

definition new_obj :: "string \<Rightarrow> bool \<Rightarrow> bool \<Rightarrow> peer_obj" where
  "new_obj address parent cancelled =
     \<lparr>mp_address = address, mp_peer = None, mp_status = PeerStatusDisconnected, mp_failureCount = 0,
      mp_cancelled = cancelled, po_pc = L_Top, po_parent = parent\<rparr>"

text \<open>Register a peer and start its goroutine: the common tail of \<open>addPeer\<close> and \<open>addDiscoveredPeers\<close>.\<close>

definition spawn_peer :: "string \<Rightarrow> bool \<Rightarrow> bool \<Rightarrow> manager \<Rightarrow> manager" where
  "spawn_peer address parent cancelled pm =
     pm\<lparr>pm_objs := pm_objs pm @ [new_obj address parent cancelled],
        pm_peers := AList.update address (length (pm_objs pm)) (pm_peers pm),
        pm_wg := pm_wg pm + 1\<rparr>"

text \<open>\<open>cancelled\<close> says that the caller's context is already done.\<close>

definition addPeer :: "bool \<Rightarrow> string \<Rightarrow> manager \<Rightarrow> client_error option \<times> manager" where
  "addPeer cancelled address pm =
     (if map_of (pm_peers pm) address \<noteq> None then (Some ErrPeerAlreadyExists, pm)
      else if int (length (pm_peers pm)) \<ge> pm_maxPeers pm then (Some ErrMaxPeersReached, pm)
      else (None, spawn_peer address True cancelled pm))"

definition removePeer :: "string \<Rightarrow> manager \<Rightarrow> client_error option \<times> manager" where
  "removePeer address pm =
     (case map_of (pm_peers pm) address of
        None \<Rightarrow> (Some ErrPeerNotFound, pm)
      | Some i \<Rightarrow>
          (let pm1 = upd_obj i cancelPeer pm;
               pm2 = disconnect (Peer (pm_objs pm1 ! i)) pm1;
               pm3 = pm2\<lparr>pm_peers := AList.delete address (pm_peers pm2)\<rparr>
           in (None, emit (ml_OnPeerDisconnected (pm_listeners pm)) (EvDisconnected i) pm3)))"

definition evictPeer :: "nat \<Rightarrow> manager \<Rightarrow> manager" where
  "evictPeer i pm = snd (removePeer (mp_address (pm_objs pm ! i)) pm)"

definition isStopping :: "manager \<Rightarrow> bool" where
  "isStopping pm = pm_done pm"

text \<open>
  The health check collects the addresses to remove, in the order \<open>range\<close> visits the map, and
  then removes them, all under the registry's lock.
\<close>

definition unhealthy :: "manager \<Rightarrow> nat \<Rightarrow> bool" where
  "unhealthy pm i \<longleftrightarrow> sint (FailureCount (pm_objs pm ! i)) \<ge> sint (pm_maxFailureCount pm)"

definition runHealthChecks :: "manager \<Rightarrow> manager" where
  "runHealthChecks pm =
     (let toRemove = map fst (filter (\<lambda>(addr, i). unhealthy pm i) (pm_peers pm))
      in fold (\<lambda>addr pm. snd (removePeer addr pm)) toRemove pm)"

section \<open>Peer discovery\<close>

text \<open>
  An address of an \<open>addr\<close> message: the text that \<open>IP.String()\<close> gives, and the port, which
  \<open>%d\<close> prints in decimal.
\<close>

record net_addr =
  na_ip :: string
  na_port :: "16 word"

definition addr_string :: "net_addr \<Rightarrow> string" where
  "addr_string a = na_ip a @ '':'' @ show_nat (unat (na_port a))"

fun addDiscoveredPeers :: "net_addr list \<Rightarrow> manager \<Rightarrow> manager" where
  "addDiscoveredPeers [] pm = pm"
| "addDiscoveredPeers (a # as) pm =
     (if int (length (pm_peers pm)) \<ge> pm_maxPeers pm then pm
      else if map_of (pm_peers pm) (addr_string a) \<noteq> None then addDiscoveredPeers as pm
      else addDiscoveredPeers as (spawn_peer (addr_string a) False False pm))"

section \<open>Message handlers\<close>

datatype peer_msg =
    MsgVersion | MsgVerAck | MsgHeaders | MsgInv | MsgBlock | MsgTx | MsgAddr "net_addr list" | MsgReject

text \<open>The handlers that \<open>peerListeners\<close> installs for peer \<open>i\<close>; those that only log do nothing here.\<close>

fun handle_msg :: "nat \<Rightarrow> peer_msg \<Rightarrow> manager \<Rightarrow> manager" where
  "handle_msg i MsgVersion pm = pm"
| "handle_msg i MsgVerAck pm = pm"
| "handle_msg i MsgHeaders pm = emit (ml_OnHeaders (pm_listeners pm)) (EvHeaders i) pm"
| "handle_msg i MsgInv pm = emit (ml_OnInv (pm_listeners pm)) (EvInv i) pm"
| "handle_msg i MsgBlock pm = emit (ml_OnBlock (pm_listeners pm)) (EvBlock i) pm"
| "handle_msg i MsgTx pm = emit (ml_OnTx (pm_listeners pm)) (EvTx i) pm"
| "handle_msg i (MsgAddr as) pm = addDiscoveredPeers as (emit (ml_OnAddr (pm_listeners pm)) (EvAddr i) pm)"
| "handle_msg i MsgReject pm = pm"

section \<open>The connection loop\<close>

definition goto :: "nat \<Rightarrow> loop_pc \<Rightarrow> manager \<Rightarrow> manager" where
  "goto i l = upd_obj i (\<lambda>o'. o'\<lparr>po_pc := l\<rparr>)"

text \<open>The goroutine returns: the deferred \<open>wg.Done()\<close> runs.\<close>

definition loop_exit :: "nat \<Rightarrow> manager \<Rightarrow> manager outcome" where
  "loop_exit i pm =
     (if pm_wg pm \<le> 0 then Panic ''sync: negative WaitGroup counter''
      else Next (goto i L_Exited (pm\<lparr>pm_wg := pm_wg pm - 1\<rparr>)))"

text \<open>
  The select of \<open>waitOrCancel\<close>: true when the timer fires, false when the manager's channel or the
  peer's context is done; it may go either way when both are ready.
\<close>

definition waitOrCancel :: "bool \<Rightarrow> peer_obj \<Rightarrow> manager \<Rightarrow> bool outcome" where
  "waitOrCancel timer mp pm =
     (if timer then Next True
      else if pm_done pm \<or> mp_cancelled mp then Next False
      else Blocked)"

text \<open>
  One statement of goroutine \<open>i\<close>. \<open>ok\<close> is the environment's choice: whether \<open>DialContext\<close>
  (which fails on a cancelled context) or \<open>NewOutboundPeer\<close> succeeds, and whether the timer of
  \<open>waitOrCancel\<close> fires first.
\<close>

definition loop_step :: "nat \<Rightarrow> bool \<Rightarrow> manager \<Rightarrow> manager outcome" where
  "loop_step i ok pm =
     (let mp = pm_objs pm ! i in
      case po_pc mp of
        L_Top \<Rightarrow> if isStopping pm \<or> mp_cancelled mp then loop_exit i pm else Next (goto i L_Connecting pm)
      | L_Connecting \<Rightarrow> Next (goto i L_Dial (upd_obj i (setStatus PeerStatusConnecting) pm))
      | L_Dial \<Rightarrow> if ok \<and> \<not> mp_cancelled mp then Next (goto i L_NewPeer pm) else Next (goto i L_DialFailed pm)
      | L_NewPeer \<Rightarrow> if ok then Next (goto i L_SetPeer pm) else Next (goto i L_DialFailed pm)
      | L_SetPeer \<Rightarrow>
          Next (goto i L_Connected
            (upd_obj i (setPeer (length (pm_conns pm))) (pm\<lparr>pm_conns := pm_conns pm @ [True]\<rparr>)))
      | L_DialFailed \<Rightarrow> Next (goto i L_IncFailure (upd_obj i (setStatus PeerStatusDisconnected) pm))
      | L_IncFailure \<Rightarrow> Next (goto i L_CheckFailure (upd_obj i (\<lambda>mp. snd (incrementFailure mp)) pm))
      | L_CheckFailure \<Rightarrow>
          if sint (FailureCount mp) \<ge> sint (pm_maxFailureCount pm) then Next (goto i L_Evict pm)
          else Next (goto i L_Wait pm)
      | L_Evict \<Rightarrow> loop_exit i (evictPeer i pm)
      | L_Connected \<Rightarrow> Next (goto i L_Reset (upd_obj i (setStatus PeerStatusConnected) pm))
      | L_Reset \<Rightarrow> Next (goto i L_OnConnected (upd_obj i resetFailures pm))
      | L_OnConnected \<Rightarrow>
          Next (goto i L_GetAddr (emit (ml_OnPeerConnected (pm_listeners pm)) (EvConnected i) pm))
      | L_GetAddr \<Rightarrow> Next (goto i L_Block (emit (Peer mp \<noteq> None) (EvGetAddr i) pm))
      | L_Block \<Rightarrow>
          (case Peer mp of
             None \<Rightarrow> Panic ''nil pointer dereference''
           | Some c \<Rightarrow> if pm_conns pm ! c then Blocked else Next (goto i L_Disconnected pm))
      | L_Disconnected \<Rightarrow> Next (goto i L_Clear (upd_obj i (setStatus PeerStatusDisconnected) pm))
      | L_Clear \<Rightarrow> Next (goto i L_OnDisconnected (upd_obj i clearPeer pm))
      | L_OnDisconnected \<Rightarrow>
          Next (goto i L_Wait (emit (ml_OnPeerDisconnected (pm_listeners pm)) (EvDisconnected i) pm))
      | L_Wait \<Rightarrow>
          (case waitOrCancel ok mp pm of
             Next b \<Rightarrow> if b then Next (goto i L_Top pm) else loop_exit i pm
           | Panic s \<Rightarrow> Panic s
           | Blocked \<Rightarrow> Blocked)
      | L_Exited \<Rightarrow> Blocked)"

declare waitOrCancel_def [simp]

end
