(* ===== verification/Btc_Client.thy ===== *)
theory Btc_Client
  imports Peer_Manager
begin

text \<open>
  \<open>pkg/btcclient/client.go\<close>: the public API over one manager, and the whole client as a
  transition system. An action is an API call, a step of one goroutine, or a move of the
  environment (a message arrives, a connection drops, a caller's context ends). \<open>Stop\<close> takes
  three actions, since other goroutines run while it works; it holds the client's lock
  throughout, so the other API calls wait.
\<close>

definition NewBtcClient :: "'l client_option list \<Rightarrow> chain_params \<Rightarrow> client_error + manager" where
  "NewBtcClient opts mainNet =
     (case client_validate (apply_options opts (client_DefaultConfig mainNet)) of
        Inl e \<Rightarrow> Inl e
      | Inr cfg \<Rightarrow> Inr (newPeerManager cfg))"

definition PeerCount :: "manager \<Rightarrow> int" where
  "PeerCount pm = int (length (pm_peers pm))"

definition client_Start :: "manager \<Rightarrow> client_error option \<times> manager" where
  "client_Start pm =
     (if pm_started pm then (Some ErrClientAlreadyStarted, pm)
      else (None, pm\<lparr>pm_started := True, pm_wg := pm_wg pm + 1, pm_health := pm_health pm + 1\<rparr>))"

text \<open>\<open>Stop\<close> up to \<open>close(done)\<close>: closing a closed channel panics.\<close>

definition client_Stop_close :: "manager \<Rightarrow> (client_error option \<times> manager) outcome" where
  "client_Stop_close pm =
     (if \<not> pm_started pm then Next (Some ErrClientNotStarted, pm)
      else if pm_done pm then Panic ''close of closed channel''
      else Next (None, pm\<lparr>pm_done := True, pm_stop := StopCancelling\<rparr>))"

text \<open>The loop over the registry: cancel every peer and disconnect the connected ones.\<close>

definition client_Stop_cancel :: "manager \<Rightarrow> manager" where
  "client_Stop_cancel pm =
     (fold (\<lambda>(addr, i) pm. disconnect (Peer (pm_objs pm ! i)) (upd_obj i cancelPeer pm)) (pm_peers pm) pm)
       \<lparr>pm_stop := StopWaiting\<rparr>"

text \<open>The final select: the wait group has drained, or the caller's context is done.\<close>

definition client_Stop_graceful :: "manager \<Rightarrow> (client_error option \<times> manager) outcome" where
  "client_Stop_graceful pm =
     (if pm_wg pm = 0 then Next (None, pm\<lparr>pm_started := False, pm_stop := StopIdle\<rparr>) else Blocked)"

definition client_Stop_timeout :: "manager \<Rightarrow> client_error option \<times> manager" where
  "client_Stop_timeout pm = (Some ErrStopTimeout, pm\<lparr>pm_stop := StopIdle\<rparr>)"

text \<open>The health-check goroutine sees the closed channel and returns.\<close>

definition health_exit :: "manager \<Rightarrow> manager outcome" where
  "health_exit pm =
     (if \<not> pm_done pm then Blocked
      else if pm_wg pm \<le> 0 then Panic ''sync: negative WaitGroup counter''
      else Next (pm\<lparr>pm_health := pm_health pm - 1, pm_wg := pm_wg pm - 1\<rparr>))"

datatype action =
    AStart
  | AStopClose
  | AStopCancel
  | AStopGraceful
  | AStopTimeout
  | AAddPeer bool string
  | ARemovePeer string
  | ALoop nat bool
  | AHealthTick
  | AHealthExit
  | AMessage nat peer_msg
  | AConnDrop nat
  | ACtxDone nat

definition silent :: "manager outcome \<Rightarrow> (client_error option \<times> manager) outcome" where
  "silent r = (case r of Next pm \<Rightarrow> Next (None, pm) | Panic s \<Rightarrow> Panic s | Blocked \<Rightarrow> Blocked)"

definition enabled_if :: "bool \<Rightarrow> 'a outcome \<Rightarrow> 'a outcome" where
  "enabled_if b r = (if b then r else Blocked)"

fun client_exec :: "manager \<Rightarrow> action \<Rightarrow> (client_error option \<times> manager) outcome" where
  "client_exec pm AStart = enabled_if (pm_stop pm = StopIdle) (Next (client_Start pm))"
| "client_exec pm AStopClose = enabled_if (pm_stop pm = StopIdle) (client_Stop_close pm)"
| "client_exec pm AStopCancel = enabled_if (pm_stop pm = StopCancelling) (Next (None, client_Stop_cancel pm))"
| "client_exec pm AStopGraceful = enabled_if (pm_stop pm = StopWaiting) (client_Stop_graceful pm)"
| "client_exec pm AStopTimeout = enabled_if (pm_stop pm = StopWaiting) (Next (client_Stop_timeout pm))"
| "client_exec pm (AAddPeer cancelled address) =
     enabled_if (pm_stop pm = StopIdle) (Next (addPeer cancelled address pm))"
| "client_exec pm (ARemovePeer address) = enabled_if (pm_stop pm = StopIdle) (Next (removePeer address pm))"
| "client_exec pm (ALoop i ok) = enabled_if (i < length (pm_objs pm)) (silent (loop_step i ok pm))"
| "client_exec pm AHealthTick = enabled_if (pm_health pm > 0) (Next (None, runHealthChecks pm))"
| "client_exec pm AHealthExit = enabled_if (pm_health pm > 0) (silent (health_exit pm))"
| "client_exec pm (AMessage i msg) = enabled_if (i < length (pm_objs pm)) (Next (None, handle_msg i msg pm))"
| "client_exec pm (AConnDrop c) = Next (None, disconnect (Some c) pm)"
| "client_exec pm (ACtxDone i) =
     enabled_if (i < length (pm_objs pm) \<and> po_parent (pm_objs pm ! i)) (Next (None, upd_obj i cancelPeer pm))"

text \<open>The states a client can be in, from a validated configuration on. The logger plays no role: its type is fixed.\<close>

inductive reach :: "manager \<Rightarrow> bool" where
  reach_new: "NewBtcClient (opts :: unit client_option list) mainNet = Inr pm \<Longrightarrow> reach pm"
| reach_step: "reach pm \<Longrightarrow> client_exec pm a = Next (e, pm') \<Longrightarrow> reach pm'"

text \<open>A run of given actions, for concrete executions.\<close>

fun client_run :: "manager \<Rightarrow> action list \<Rightarrow> manager outcome" where
  "client_run pm [] = Next pm"
| "client_run pm (a # as) =
     (case client_exec pm a of
        Next (_, pm') \<Rightarrow> client_run pm' as
      | Panic s \<Rightarrow> Panic s
      | Blocked \<Rightarrow> Blocked)"

lemma reach_run: "reach pm \<Longrightarrow> client_run pm as = Next pm' \<Longrightarrow> reach pm'"
  by (induction as arbitrary: pm) (auto split: outcome.splits intro: reach_step)

end
