(* ===== verification/Client_Inv.thy ===== *)
theory Client_Inv
  imports Btc_Client
begin

text \<open>
  The invariant of the P2P client. The registry is consistent and within its capacity, every
  object off the registry has been cancelled, each connection loop's program point fixes its
  peer's status and bounds its failure counter, and the wait group counts the goroutines. Every
  action preserves it, so it holds in every reachable state.
\<close>

section \<open>What a program point says of its peer\<close>

definition pc_status :: "loop_pc \<Rightarrow> peer_status" where
  "pc_status l =
     (if l \<in> {L_Dial, L_NewPeer, L_SetPeer, L_Connected, L_DialFailed} then PeerStatusConnecting
      else if l \<in> {L_Reset, L_OnConnected, L_GetAddr, L_Block, L_Disconnected} then PeerStatusConnected
      else PeerStatusDisconnected)"

definition holds_peer :: "loop_pc \<Rightarrow> bool" where
  "holds_peer l \<longleftrightarrow> l \<in> {L_Connected, L_Reset, L_OnConnected, L_GetAddr, L_Block, L_Disconnected, L_Clear}"

definition counter_bound :: "loop_pc \<Rightarrow> int \<Rightarrow> int \<Rightarrow> bool" where
  "counter_bound l c m \<longleftrightarrow> 0 \<le> c \<and> c \<le> m \<and>
     (l \<notin> {L_CheckFailure, L_Evict, L_Exited} \<longrightarrow> c < m) \<and> (l = L_Evict \<longrightarrow> c = m)"

definition obj_ok :: "32 word \<Rightarrow> nat \<Rightarrow> peer_obj \<Rightarrow> bool" where
  "obj_ok m n ob \<longleftrightarrow>
     mp_status ob = pc_status (po_pc ob) \<and>
     counter_bound (po_pc ob) (sint (mp_failureCount ob)) (sint m) \<and>
     (mp_peer ob \<noteq> None \<longleftrightarrow> holds_peer (po_pc ob)) \<and>
     (case mp_peer ob of None \<Rightarrow> True | Some c \<Rightarrow> c < n)"

section \<open>The invariant\<close>

definition live :: "peer_obj list \<Rightarrow> int" where
  "live obs = int (length (filter (\<lambda>ob. po_pc ob \<noteq> L_Exited) obs))"

definition registry_ok :: "(string \<times> nat) list \<Rightarrow> peer_obj list \<Rightarrow> bool" where
  "registry_ok ps obs \<longleftrightarrow>
     distinct (map fst ps) \<and>
     (\<forall>(a, i) \<in> set ps. i < length obs \<and> mp_address (obs ! i) = a) \<and>
     (\<forall>i. i < length obs \<longrightarrow> i \<in> snd ` set ps \<or> mp_cancelled (obs ! i))"

definition objs_ok :: "32 word \<Rightarrow> nat \<Rightarrow> peer_obj list \<Rightarrow> bool" where
  "objs_ok m n obs \<longleftrightarrow> (\<forall>ob \<in> set obs. obj_ok m n ob)"

definition manager_inv :: "manager \<Rightarrow> bool" where
  "manager_inv pm \<longleftrightarrow>
     0 < pm_maxPeers pm \<and> 0 < sint (pm_maxFailureCount pm) \<and>
     registry_ok (pm_peers pm) (pm_objs pm) \<and>
     objs_ok (pm_maxFailureCount pm) (length (pm_conns pm)) (pm_objs pm) \<and>
     int (length (pm_peers pm)) \<le> pm_maxPeers pm \<and>
     0 \<le> pm_health pm \<and> pm_wg pm = live (pm_objs pm) + pm_health pm \<and>
     (pm_stop pm = StopIdle \<or> pm_done pm \<and> pm_started pm)"

lemma live_nonneg [simp]: "0 \<le> live obs"
  by (simp add: live_def)

lemma live_append [simp]: "live (xs @ ys) = live xs + live ys"
  by (simp add: live_def)

lemma live_simps [simp]:
  "live [] = 0" "live (ob # obs) = (if po_pc ob \<noteq> L_Exited then 1 else 0) + live obs"
  by (simp_all add: live_def)

lemma live_update:
  "i < length obs \<Longrightarrow>
   live (obs[i := ob]) = live obs - (if po_pc (obs ! i) \<noteq> L_Exited then 1 else 0) + (if po_pc ob \<noteq> L_Exited then 1 else 0)"
proof (induction obs arbitrary: i)
  case Nil
  then show ?case by simp
next
  case (Cons x obs)
  then show ?case by (cases i) auto
qed

lemma live_pos: "i < length obs \<Longrightarrow> po_pc (obs ! i) \<noteq> L_Exited \<Longrightarrow> 0 < live obs"
  by (auto simp: live_def filter_empty_conv dest: nth_mem)

section \<open>Building blocks\<close>

lemma upd_obj_fields [simp]:
  "pm_peers (upd_obj i f pm) = pm_peers pm" "pm_conns (upd_obj i f pm) = pm_conns pm"
  "pm_done (upd_obj i f pm) = pm_done pm" "pm_wg (upd_obj i f pm) = pm_wg pm"
  "pm_started (upd_obj i f pm) = pm_started pm" "pm_maxPeers (upd_obj i f pm) = pm_maxPeers pm"
  "pm_maxFailureCount (upd_obj i f pm) = pm_maxFailureCount pm"
  "pm_listeners (upd_obj i f pm) = pm_listeners pm"
  "pm_health (upd_obj i f pm) = pm_health pm" "pm_stop (upd_obj i f pm) = pm_stop pm"
  "pm_trace (upd_obj i f pm) = pm_trace pm"
  "length (pm_objs (upd_obj i f pm)) = length (pm_objs pm)"
  "pm_objs (upd_obj i f pm) = (pm_objs pm)[i := f (pm_objs pm ! i)]"
  by (simp_all add: upd_obj_def)

lemma emit_fields [simp]:
  "pm_peers (emit b e pm) = pm_peers pm" "pm_conns (emit b e pm) = pm_conns pm"
  "pm_done (emit b e pm) = pm_done pm" "pm_wg (emit b e pm) = pm_wg pm"
  "pm_started (emit b e pm) = pm_started pm" "pm_maxPeers (emit b e pm) = pm_maxPeers pm"
  "pm_maxFailureCount (emit b e pm) = pm_maxFailureCount pm"
  "pm_listeners (emit b e pm) = pm_listeners pm"
  "pm_health (emit b e pm) = pm_health pm" "pm_stop (emit b e pm) = pm_stop pm"
  "pm_objs (emit b e pm) = pm_objs pm"
  by (simp_all add: emit_def)

lemma disconnect_fields [simp]:
  "pm_peers (disconnect p pm) = pm_peers pm" "length (pm_conns (disconnect p pm)) = length (pm_conns pm)"
  "pm_done (disconnect p pm) = pm_done pm" "pm_wg (disconnect p pm) = pm_wg pm"
  "pm_started (disconnect p pm) = pm_started pm" "pm_maxPeers (disconnect p pm) = pm_maxPeers pm"
  "pm_maxFailureCount (disconnect p pm) = pm_maxFailureCount pm"
  "pm_listeners (disconnect p pm) = pm_listeners pm"
  "pm_health (disconnect p pm) = pm_health pm" "pm_stop (disconnect p pm) = pm_stop pm"
  "pm_objs (disconnect p pm) = pm_objs pm" "pm_trace (disconnect p pm) = pm_trace pm"
  by (simp_all add: disconnect_def split: option.splits)

lemma goto_upd_obj: "i < length (pm_objs pm) \<Longrightarrow> goto i l (upd_obj i f pm) = upd_obj i (\<lambda>ob. (f ob)\<lparr>po_pc := l\<rparr>) pm"
  by (simp add: goto_def upd_obj_def)

lemma inv_emit [simp]: "manager_inv (emit b e pm) = manager_inv pm"
  by (simp add: manager_inv_def)

lemma inv_disconnect [simp]: "manager_inv (disconnect p pm) = manager_inv pm"
  by (simp add: manager_inv_def)

lemma inv_obj: "manager_inv pm \<Longrightarrow> i < length (pm_objs pm) \<Longrightarrow>
    obj_ok (pm_maxFailureCount pm) (length (pm_conns pm)) (pm_objs pm ! i)"
  by (simp add: manager_inv_def objs_ok_def)

lemma update_nth: "xs[i := f (xs ! i)] ! j = (if i = j \<and> i < length xs then f (xs ! i) else xs ! j)"
  by (cases "i < length xs") (auto simp: list_update_beyond)

lemma update_keep: "(\<And>x. P (f x) = P x) \<Longrightarrow> P (xs[i := f (xs ! i)] ! j) = P (xs ! j)"
  by (simp add: update_nth)

lemma update_mono: "(\<And>x. P x \<Longrightarrow> P (f x)) \<Longrightarrow> P (xs ! j) \<Longrightarrow> P (xs[i := f (xs ! i)] ! j)"
  by (simp add: update_nth)

lemma registry_upd_obj:
  assumes "registry_ok ps obs" and "\<And>ob. mp_address (f ob) = mp_address ob"
    and "\<And>ob. mp_cancelled ob \<Longrightarrow> mp_cancelled (f ob)"
  shows "registry_ok ps (obs[i := f (obs ! i)])"
  unfolding registry_ok_def
  using assms(1) update_mono [of mp_cancelled f obs _ i, OF assms(3)]
  by (auto simp: registry_ok_def update_keep [of mp_address, OF assms(2)])

lemma objs_upd_obj:
  assumes "objs_ok m n obs" and "obj_ok m n ob"
  shows "objs_ok m n (obs[i := ob])"
  using assms set_update_subset_insert [of obs i ob] by (auto simp: objs_ok_def)

text \<open>An object moves on and stays alive.\<close>

lemma inv_upd_obj:
  assumes "manager_inv pm" and "i < length (pm_objs pm)"
    and "\<And>ob. mp_address (f ob) = mp_address ob" and "\<And>ob. mp_cancelled ob \<Longrightarrow> mp_cancelled (f ob)"
    and "obj_ok (pm_maxFailureCount pm) (length (pm_conns pm)) (f (pm_objs pm ! i))"
    and "po_pc (f (pm_objs pm ! i)) = L_Exited \<longleftrightarrow> po_pc (pm_objs pm ! i) = L_Exited"
  shows "manager_inv (upd_obj i f pm)"
  using assms registry_upd_obj [of "pm_peers pm" "pm_objs pm" f i] objs_upd_obj
  by (simp add: manager_inv_def live_update)

text \<open>A goroutine returns: the wait group is positive, and is decremented.\<close>

lemma inv_exit:
  assumes inv: "manager_inv pm" and i: "i < length (pm_objs pm)" and "po_pc (pm_objs pm ! i) \<noteq> L_Exited"
    and "mp_peer (pm_objs pm ! i) = None" and "mp_status (pm_objs pm ! i) = PeerStatusDisconnected"
  shows "\<exists>pm'. loop_exit i pm = Next pm' \<and> manager_inv pm'"
proof -
  let ?ex = "\<lambda>ob. ob\<lparr>po_pc := L_Exited\<rparr>"
  have reg: "registry_ok (pm_peers pm) ((pm_objs pm)[i := ?ex (pm_objs pm ! i)])"
    using inv by (intro registry_upd_obj) (simp_all add: manager_inv_def)
  have "obj_ok (pm_maxFailureCount pm) (length (pm_conns pm)) (?ex (pm_objs pm ! i))"
    using inv_obj [OF inv i] assms(4,5)
    by (auto simp: obj_ok_def counter_bound_def holds_peer_def pc_status_def)
  then have obs: "objs_ok (pm_maxFailureCount pm) (length (pm_conns pm)) ((pm_objs pm)[i := ?ex (pm_objs pm ! i)])"
    using inv by (intro objs_upd_obj) (simp_all add: manager_inv_def)
  have "0 < pm_wg pm"
    using inv live_pos [OF i assms(3)] by (simp add: manager_inv_def)
  moreover have "manager_inv (goto i L_Exited (pm\<lparr>pm_wg := pm_wg pm - 1\<rparr>))"
    using inv reg obs i assms(3)
    by (simp add: manager_inv_def goto_def live_update)
  ultimately show ?thesis by (simp add: loop_exit_def)
qed

lemma inv_spawn:
  assumes inv: "manager_inv pm" and new: "map_of (pm_peers pm) a = None"
    and room: "int (length (pm_peers pm)) < pm_maxPeers pm"
  shows "manager_inv (spawn_peer a parent cancelled pm)"
proof -
  let ?n = "length (pm_objs pm)"
  have upd: "AList.update a ?n ps = ps @ [(a, ?n)]" if "map_of ps a = None" for ps
    using that by (induction ps) (auto split: if_splits)
  let ?ob = "new_obj a parent cancelled"
  have reg: "registry_ok (pm_peers pm @ [(a, ?n)]) (pm_objs pm @ [?ob])"
    using inv new
    by (fastforce simp: manager_inv_def registry_ok_def nth_append map_of_eq_None_iff less_Suc_eq new_obj_def)
  have "obj_ok (pm_maxFailureCount pm) (length (pm_conns pm)) ?ob"
    using inv by (simp add: manager_inv_def obj_ok_def new_obj_def pc_status_def counter_bound_def holds_peer_def)
  then have "objs_ok (pm_maxFailureCount pm) (length (pm_conns pm)) (pm_objs pm @ [?ob])"
    using inv by (simp add: manager_inv_def objs_ok_def ball_Un)
  with inv reg room show ?thesis
    by (simp add: manager_inv_def spawn_peer_def upd [OF new] new_obj_def)
qed

lemma inv_cancel:
  assumes "manager_inv pm"
  shows "manager_inv (upd_obj i cancelPeer pm)"
proof (cases "i < length (pm_objs pm)")
  case True
  with inv_obj [OF assms True] show ?thesis
    by (intro inv_upd_obj [OF assms]) (auto simp: cancelPeer_def obj_ok_def)
next
  case False
  then have "upd_obj i cancelPeer pm = pm"
    by (simp add: upd_obj_def list_update_beyond)
  with assms show ?thesis by simp
qed

lemma set_delete: "set (AList.delete a ps) = {p \<in> set ps. fst p \<noteq> a}"
  by (auto simp: AList.delete_eq)

lemma length_delete_le: "length (AList.delete a ps) \<le> length ps"
  by (simp add: AList.delete_eq)

lemma registry_delete:
  assumes reg: "registry_ok ps obs" and i: "map_of ps a = Some i" and c: "mp_cancelled (obs ! i)"
  shows "registry_ok (AList.delete a ps) obs"
proof -
  have "j \<in> snd ` set (AList.delete a ps) \<or> mp_cancelled (obs ! j)" if j: "j < length obs" for j
  proof (cases "mp_cancelled (obs ! j)")
    case False
    with reg j obtain b where b: "(b, j) \<in> set ps" by (auto simp: registry_ok_def)
    with reg have "map_of ps b = Some j" by (simp add: registry_ok_def)
    with False c i have "b \<noteq> a" by auto
    with b have "(b, j) \<in> set (AList.delete a ps)" by (simp add: set_delete)
    then show ?thesis by force
  qed simp
  with reg show ?thesis by (auto simp: registry_ok_def set_delete)
qed

lemma removePeer_None: "map_of (pm_peers pm) a = None \<Longrightarrow> removePeer a pm = (Some ErrPeerNotFound, pm)"
  by (simp add: removePeer_def)

lemma removePeer_Some:
  "map_of (pm_peers pm) a = Some i \<Longrightarrow>
   removePeer a pm =
     (None, emit (ml_OnPeerDisconnected (pm_listeners pm)) (EvDisconnected i)
       ((disconnect (mp_peer (pm_objs pm ! i)) (upd_obj i cancelPeer pm))
          \<lparr>pm_peers := AList.delete a (pm_peers pm)\<rparr>))"
  using update_keep [of mp_peer cancelPeer "pm_objs pm" i i]
  by (simp add: removePeer_def Let_def cancelPeer_def)

lemma removePeer_fields [simp]:
  "length (pm_objs (snd (removePeer a pm))) = length (pm_objs pm)"
  "length (pm_conns (snd (removePeer a pm))) = length (pm_conns pm)"
  "pm_maxFailureCount (snd (removePeer a pm)) = pm_maxFailureCount pm"
  "pm_maxPeers (snd (removePeer a pm)) = pm_maxPeers pm"
  "pm_listeners (snd (removePeer a pm)) = pm_listeners pm"
  "pm_wg (snd (removePeer a pm)) = pm_wg pm" "pm_done (snd (removePeer a pm)) = pm_done pm"
  "pm_stop (snd (removePeer a pm)) = pm_stop pm" "pm_started (snd (removePeer a pm)) = pm_started pm"
  "pm_health (snd (removePeer a pm)) = pm_health pm"
  by (cases "map_of (pm_peers pm) a"; simp add: removePeer_None removePeer_Some)+

lemma removePeer_peers [simp]: "pm_peers (snd (removePeer a pm)) = AList.delete a (pm_peers pm)"
proof (cases "map_of (pm_peers pm) a")
  case None
  then show ?thesis by (simp add: removePeer_None map_of_eq_None_iff delete_id)
next
  case (Some i)
  then show ?thesis by (simp add: removePeer_Some)
qed

lemma removePeer_obj [simp]:
  "po_pc (pm_objs (snd (removePeer a pm)) ! j) = po_pc (pm_objs pm ! j)"
  "mp_peer (pm_objs (snd (removePeer a pm)) ! j) = mp_peer (pm_objs pm ! j)"
  "mp_status (pm_objs (snd (removePeer a pm)) ! j) = mp_status (pm_objs pm ! j)"
  "mp_failureCount (pm_objs (snd (removePeer a pm)) ! j) = mp_failureCount (pm_objs pm ! j)"
  "mp_address (pm_objs (snd (removePeer a pm)) ! j) = mp_address (pm_objs pm ! j)"
  by (cases "map_of (pm_peers pm) a";
      simp add: removePeer_None removePeer_Some update_keep cancelPeer_def)+

lemma inv_remove:
  assumes inv: "manager_inv pm"
  shows "manager_inv (snd (removePeer a pm))"
proof (cases "map_of (pm_peers pm) a")
  case None
  with inv show ?thesis by (simp add: removePeer_None)
next
  case (Some i)
  let ?pm = "upd_obj i cancelPeer pm"
  have i: "i < length (pm_objs pm)"
    using inv Some by (auto simp: manager_inv_def registry_ok_def dest: map_of_SomeD)
  have inv1: "manager_inv ?pm" by (rule inv_cancel [OF inv])
  moreover have "registry_ok (AList.delete a (pm_peers pm)) (pm_objs ?pm)"
    using inv1 Some i by (intro registry_delete [of _ _ _ i]) (simp_all add: manager_inv_def cancelPeer_def)
  ultimately show ?thesis
    using length_delete_le [of a "pm_peers pm"] by (simp add: removePeer_Some Some manager_inv_def)
qed

end
