(* ===== verification/Client_Reach.thy ===== *)
theory Client_Reach
  imports Client_Inv
begin

text \<open>
  Every action of the client preserves the invariant, and the only action that can panic is a
  \<open>Stop\<close> whose \<open>close(done)\<close> meets a closed channel. So the invariant holds in every reachable
  state.
\<close>

section \<open>The connection loop\<close>

definition safe :: "manager outcome \<Rightarrow> bool" where
  "safe r = (case r of Blocked \<Rightarrow> True | Next pm \<Rightarrow> manager_inv pm | Panic _ \<Rightarrow> False)"

lemma safe_simps [simp]: "safe Blocked" "safe (Next pm) = manager_inv pm" "\<not> safe (Panic s)"
  by (simp_all add: safe_def)

lemma inv_goto_upd:
  assumes "manager_inv pm" and "i < length (pm_objs pm)"
    and "po_pc (pm_objs pm ! i) \<noteq> L_Exited" and "l \<noteq> L_Exited"
    and "\<And>ob. mp_address (f ob) = mp_address ob" and "\<And>ob. mp_cancelled ob \<Longrightarrow> mp_cancelled (f ob)"
    and "obj_ok (pm_maxFailureCount pm) (length (pm_conns pm)) ((f (pm_objs pm ! i))\<lparr>po_pc := l\<rparr>)"
  shows "manager_inv (goto i l (upd_obj i f pm))"
  unfolding goto_upd_obj [OF assms(2)]
  by (rule inv_upd_obj [OF assms(1,2)]) (use assms in simp_all)

lemma inv_goto:
  assumes "manager_inv pm" and "i < length (pm_objs pm)"
    and "po_pc (pm_objs pm ! i) \<noteq> L_Exited" and "l \<noteq> L_Exited"
    and "obj_ok (pm_maxFailureCount pm) (length (pm_conns pm)) ((pm_objs pm ! i)\<lparr>po_pc := l\<rparr>)"
  shows "manager_inv (goto i l pm)"
  unfolding goto_def by (rule inv_upd_obj [OF assms(1,2)]) (use assms in simp_all)

lemma inv_new_conn: "manager_inv pm \<Longrightarrow> manager_inv (pm\<lparr>pm_conns := pm_conns pm @ [up]\<rparr>)"
  by (auto simp: manager_inv_def objs_ok_def obj_ok_def split: option.splits)

lemmas obj_ok_simps = obj_ok_def pc_status_def holds_peer_def counter_bound_def managed_peer_defs

lemma safe_exit:
  assumes "manager_inv pm" and "i < length (pm_objs pm)" and "po_pc (pm_objs pm ! i) \<noteq> L_Exited"
    and "mp_peer (pm_objs pm ! i) = None" and "mp_status (pm_objs pm ! i) = PeerStatusDisconnected"
  shows "safe (loop_exit i pm)"
  using inv_exit [OF assms] by auto

lemma loop_step_safe:
  assumes inv: "manager_inv pm" and i: "i < length (pm_objs pm)"
  shows "safe (loop_step i ok pm)"
proof -
  note ob = inv_obj [OF inv i]
  note go = inv_goto_upd [OF inv i] inv_goto [OF inv i]
  show ?thesis
  proof (cases "po_pc (pm_objs pm ! i)")
    case L_Top
    with ob inv i show ?thesis
      by (auto simp: loop_step_def obj_ok_simps intro!: safe_exit go)
  next
    case L_Connecting
    with ob show ?thesis by (auto simp: loop_step_def obj_ok_simps intro!: go)
  next
    case L_Dial
    with ob show ?thesis by (auto simp: loop_step_def obj_ok_simps intro!: go)
  next
    case L_NewPeer
    with ob show ?thesis by (auto simp: loop_step_def obj_ok_simps intro!: go)
  next
    case L_SetPeer
    let ?pm = "pm\<lparr>pm_conns := pm_conns pm @ [True]\<rparr>"
    have "manager_inv (goto i L_Connected (upd_obj i (setPeer (length (pm_conns pm))) ?pm))"
      using L_SetPeer ob i by (intro inv_goto_upd inv_new_conn inv) (auto simp: obj_ok_simps)
    with L_SetPeer show ?thesis by (simp add: loop_step_def)
  next
    case L_DialFailed
    with ob show ?thesis by (auto simp: loop_step_def obj_ok_simps intro!: go)
  next
    case L_IncFailure
    with ob sint_plus_one [of "mp_failureCount (pm_objs pm ! i)" "pm_maxFailureCount pm"]
    show ?thesis by (auto simp: loop_step_def obj_ok_simps intro!: go)
  next
    case L_CheckFailure
    with ob show ?thesis by (auto simp: loop_step_def obj_ok_simps intro!: go)
  next
    case L_Evict
    have "safe (loop_exit i (evictPeer i pm))"
      unfolding evictPeer_def by (rule safe_exit) (use L_Evict ob i inv_remove [OF inv] in \<open>auto simp: obj_ok_simps\<close>)
    with L_Evict show ?thesis by (simp add: loop_step_def)
  next
    case L_Connected
    with ob show ?thesis by (auto simp: loop_step_def obj_ok_simps intro!: go)
  next
    case L_Reset
    with ob show ?thesis by (auto simp: loop_step_def obj_ok_simps intro!: go)
  next
    case L_OnConnected
    with ob i inv show ?thesis by (auto simp: loop_step_def obj_ok_simps intro!: inv_goto)
  next
    case L_GetAddr
    with ob i inv show ?thesis by (auto simp: loop_step_def obj_ok_simps intro!: inv_goto)
  next
    case L_Block
    with ob show ?thesis
      by (auto simp: loop_step_def obj_ok_simps intro!: go split: option.splits)
  next
    case L_Disconnected
    with ob show ?thesis by (auto simp: loop_step_def obj_ok_simps intro!: go)
  next
    case L_Clear
    with ob show ?thesis by (auto simp: loop_step_def obj_ok_simps intro!: go)
  next
    case L_OnDisconnected
    with ob i inv show ?thesis by (auto simp: loop_step_def obj_ok_simps intro!: inv_goto)
  next
    case L_Wait
    with ob inv i show ?thesis
      by (auto simp: loop_step_def obj_ok_simps intro!: safe_exit go)
  next
    case L_Exited
    then show ?thesis by (simp add: loop_step_def)
  qed
qed

section \<open>Messages, health checks and the API\<close>

lemma discovered_inv:
  "manager_inv pm \<Longrightarrow> manager_inv (addDiscoveredPeers as pm)"
proof (induction as pm rule: addDiscoveredPeers.induct)
  case (2 a as pm)
  then show ?case by (simp add: inv_spawn not_le)
qed simp

lemma handle_msg_inv: "manager_inv pm \<Longrightarrow> manager_inv (handle_msg i msg pm)"
  by (cases msg) (simp_all add: discovered_inv)

lemma fold_inv:
  "(\<And>x pm. manager_inv pm \<Longrightarrow> manager_inv (f x pm)) \<Longrightarrow> manager_inv pm \<Longrightarrow> manager_inv (fold f xs pm)"
  by (induction xs arbitrary: pm) auto

lemma health_check_inv: "manager_inv pm \<Longrightarrow> manager_inv (runHealthChecks pm)"
  unfolding runHealthChecks_def Let_def by (rule fold_inv) (simp_all add: inv_remove)

lemma fold_field:
  "(\<And>x pm. g (f x pm) = g pm) \<Longrightarrow> g (fold f xs pm) = g pm"
  by (induction xs arbitrary: pm) auto

lemma addPeer_inv: "manager_inv pm \<Longrightarrow> manager_inv (snd (addPeer c a pm))"
  by (simp add: addPeer_def inv_spawn not_le)

text \<open>The peers that \<open>Stop\<close> visits: its loop is a fold over the registry of the state it starts in.\<close>

lemma stop_cancel_inv:
  assumes "manager_inv pm" and "pm_stop pm = StopCancelling"
  shows "manager_inv (client_Stop_cancel pm)"
proof -
  let ?f = "\<lambda>(addr, i) pm. disconnect (mp_peer (pm_objs pm ! i)) (upd_obj i cancelPeer pm)"
  let ?pm = "fold ?f (pm_peers pm) pm"
  have inv: "manager_inv ?pm"
    using assms(1) by (rule fold_inv [rotated]) (auto simp: inv_cancel)
  have "pm_done ?pm = pm_done pm" "pm_started ?pm = pm_started pm"
    by (rule fold_field; auto)+
  with assms inv show ?thesis
    by (auto simp: manager_inv_def client_Stop_cancel_def)
qed

section \<open>Every action\<close>

definition result_safe :: "(client_error option \<times> manager) outcome \<Rightarrow> bool" where
  "result_safe r = (case r of Blocked \<Rightarrow> True | Next (_, pm) \<Rightarrow> manager_inv pm | Panic _ \<Rightarrow> False)"

lemma result_safe_simps [simp]:
  "result_safe Blocked" "result_safe (Next r) = manager_inv (snd r)" "\<not> result_safe (Panic s)"
  "result_safe (silent r') = safe r'"
  by (auto simp: result_safe_def safe_def silent_def split: outcome.splits prod.splits)

lemma health_exit_safe: "manager_inv pm \<Longrightarrow> 0 < pm_health pm \<Longrightarrow> safe (health_exit pm)"
proof -
  assume inv: "manager_inv pm" and h: "0 < pm_health pm"
  then have "0 < pm_wg pm"
    using live_nonneg [of "pm_objs pm"] unfolding manager_inv_def by linarith
  with inv h show "safe (health_exit pm)" by (auto simp: health_exit_def manager_inv_def)
qed

definition double_stop :: "manager \<Rightarrow> action \<Rightarrow> bool" where
  "double_stop pm a \<longleftrightarrow> a = AStopClose \<and> pm_stop pm = StopIdle \<and> pm_started pm \<and> pm_done pm"

lemma client_exec_safe:
  assumes inv: "manager_inv pm" and "\<not> double_stop pm a"
  shows "result_safe (client_exec pm a)"
proof (cases a)
  case AStart
  with inv show ?thesis by (auto simp: enabled_if_def client_Start_def manager_inv_def)
next
  case AStopClose
  with assms show ?thesis
    by (auto simp: enabled_if_def client_Stop_close_def manager_inv_def double_stop_def)
next
  case AStopCancel
  with inv show ?thesis by (auto simp: enabled_if_def stop_cancel_inv)
next
  case AStopGraceful
  with inv show ?thesis by (auto simp: enabled_if_def client_Stop_graceful_def manager_inv_def)
next
  case AStopTimeout
  with inv show ?thesis by (auto simp: enabled_if_def client_Stop_timeout_def manager_inv_def)
next
  case AHealthExit
  with inv show ?thesis by (auto simp: enabled_if_def health_exit_safe)
qed (use inv in \<open>auto simp: enabled_if_def addPeer_inv inv_remove loop_step_safe health_check_inv
        handle_msg_inv inv_cancel\<close>)

lemma client_exec_inv:
  assumes "manager_inv pm" and "client_exec pm a = Next (e, pm')"
  shows "manager_inv pm'"
proof -
  have "\<not> double_stop pm a"
    using assms(2) by (auto simp: double_stop_def enabled_if_def client_Stop_close_def)
  with client_exec_safe [OF assms(1) this] assms(2) show ?thesis by simp
qed

lemma double_stop_panics: "double_stop pm a \<Longrightarrow> client_exec pm a = Panic ''close of closed channel''"
  by (simp add: double_stop_def enabled_if_def client_Stop_close_def)

lemma panic_iff_double_stop:
  assumes "manager_inv pm"
  shows "(\<exists>s. client_exec pm a = Panic s) \<longleftrightarrow> double_stop pm a"
proof
  assume "\<exists>s. client_exec pm a = Panic s"
  then have "\<not> result_safe (client_exec pm a)" by auto
  with client_exec_safe [OF assms] show "double_stop pm a" by blast
qed (simp add: double_stop_panics)

section \<open>Reachable states\<close>

lemma fresh_inv:
  assumes "NewBtcClient opts mainNet = Inr pm"
  shows "manager_inv pm" and "pm_objs pm = []" and "pm_peers pm = []" and "\<not> pm_done pm"
    and "\<not> pm_started pm" and "pm_stop pm = StopIdle" and "pm_health pm = 0" and "pm_trace pm = []"
proof -
  obtain cfg where cfg: "client_validate (apply_options opts (client_DefaultConfig mainNet)) = Inr cfg"
    and pm: "pm = newPeerManager cfg"
    using assms by (auto simp: NewBtcClient_def split: sum.splits)
  show "manager_inv pm"
    using client_validate_result(1) [OF cfg]
    by (simp add: pm newPeerManager_def manager_inv_def registry_ok_def objs_ok_def client_config_ok_def)
qed (use assms in \<open>auto simp: NewBtcClient_def newPeerManager_def split: sum.splits\<close>)

lemma reach_inv: "reach pm \<Longrightarrow> manager_inv pm"
  by (induction rule: reach.induct) (auto simp: fresh_inv intro: client_exec_inv)

text \<open>When the wait group has drained, every goroutine has ended.\<close>

lemma graceful_stop:
  assumes "manager_inv pm" and "client_exec pm AStopGraceful = Next (e, pm')"
  shows "e = None" and "\<not> pm_started pm'" and "pm_health pm' = 0"
    and "\<forall>ob \<in> set (pm_objs pm'). po_pc ob = L_Exited"
proof -
  have pm': "e = None" "pm' = pm\<lparr>pm_started := False, pm_stop := StopIdle\<rparr>" "pm_wg pm = 0"
    using assms(2) by (auto simp: client_Stop_graceful_def enabled_if_def split: if_splits)
  have "live (pm_objs pm) = 0" "pm_health pm = 0"
    using assms(1) pm'(3) live_nonneg [of "pm_objs pm"] unfolding manager_inv_def by linarith+
  then show "e = None" "\<not> pm_started pm'" "pm_health pm' = 0"
    "\<forall>ob \<in> set (pm_objs pm'). po_pc ob = L_Exited"
    by (simp_all add: pm' live_def filter_empty_conv)
qed

end
