(* ===== verification/Client_Live.thy ===== *)
theory Client_Live
  imports Client_Reach
begin

text \<open>
  How the objects evolve along a run: what no action can undo, that only goroutine \<open>i\<close> moves
  goroutine \<open>i\<close>, and how far a cancelled or stopped connection loop can still go.
\<close>

section \<open>What every action keeps\<close>

text \<open>Nothing is forgotten: objects stay, with their address; cancellation and \<open>close(done)\<close> are final.\<close>

definition grows :: "nat \<Rightarrow> manager \<Rightarrow> manager \<Rightarrow> bool" where
  "grows i pm pm' \<longleftrightarrow>
     length (pm_objs pm) \<le> length (pm_objs pm') \<and>
     mp_address (pm_objs pm' ! i) = mp_address (pm_objs pm ! i) \<and>
     (mp_cancelled (pm_objs pm ! i) \<longrightarrow> mp_cancelled (pm_objs pm' ! i)) \<and>
     (pm_done pm \<longrightarrow> pm_done pm') \<and>
     pm_maxFailureCount pm' = pm_maxFailureCount pm \<and> pm_maxPeers pm' = pm_maxPeers pm \<and>
     pm_listeners pm' = pm_listeners pm"

text \<open>Another goroutine's action leaves the state of goroutine \<open>i\<close> alone, its context apart.\<close>

definition untouched :: "nat \<Rightarrow> manager \<Rightarrow> manager \<Rightarrow> bool" where
  "untouched i pm pm' \<longleftrightarrow>
     grows i pm pm' \<and>
     po_pc (pm_objs pm' ! i) = po_pc (pm_objs pm ! i) \<and>
     mp_peer (pm_objs pm' ! i) = mp_peer (pm_objs pm ! i) \<and>
     mp_status (pm_objs pm' ! i) = mp_status (pm_objs pm ! i) \<and>
     mp_failureCount (pm_objs pm' ! i) = mp_failureCount (pm_objs pm ! i)"

lemma untouched_refl [simp]: "untouched i pm pm"
  by (simp add: untouched_def grows_def)

lemma untouched_trans: "untouched i pm1 pm2 \<Longrightarrow> untouched i pm2 pm3 \<Longrightarrow> untouched i pm1 pm3"
  by (auto simp: untouched_def grows_def)

lemma grows_refl [simp]: "grows i pm pm"
  by (simp add: grows_def)

lemma grows_trans: "grows i pm1 pm2 \<Longrightarrow> grows i pm2 pm3 \<Longrightarrow> grows i pm1 pm3"
  by (auto simp: grows_def)

lemma untouched_emit [simp]: "untouched i pm (emit b e pm') = untouched i pm pm'"
  by (simp add: untouched_def grows_def)

lemma untouched_disconnect [simp]: "untouched i pm (disconnect p pm') = untouched i pm pm'"
  by (simp add: untouched_def grows_def)

lemma untouched_cancel: "untouched i pm (upd_obj j cancelPeer pm)"
  by (simp add: untouched_def grows_def update_nth cancelPeer_def)

lemma untouched_other: "i \<noteq> j \<Longrightarrow> untouched i pm (upd_obj j f pm)"
  by (simp add: untouched_def grows_def)

lemma untouched_spawn: "i < length (pm_objs pm) \<Longrightarrow> untouched i pm (spawn_peer a parent c pm)"
  by (simp add: untouched_def grows_def spawn_peer_def nth_append)

lemma untouched_remove: "untouched i pm (snd (removePeer a pm))"
proof (cases "map_of (pm_peers pm) a")
  case (Some j)
  have "untouched i pm (upd_obj j cancelPeer pm)" by (rule untouched_cancel)
  then show ?thesis by (simp add: removePeer_Some Some untouched_def grows_def)
qed (simp add: removePeer_None)

lemma untouched_fold: "(\<And>x pm. untouched i pm (f x pm)) \<Longrightarrow> untouched i pm (fold f xs pm)"
  by (induction xs arbitrary: pm) (auto intro: untouched_trans)

lemma untouched_discovered:
  "i < length (pm_objs pm) \<Longrightarrow> untouched i pm (addDiscoveredPeers as pm)"
proof (induction as pm rule: addDiscoveredPeers.induct)
  case (2 a as pm)
  note sp = untouched_spawn [OF 2(3), of "addr_string a" False False]
  then have "i < length (pm_objs (spawn_peer (addr_string a) False False pm))"
    using 2(3) by (simp add: untouched_def grows_def)
  with 2 sp show ?case by (auto intro: untouched_trans)
qed simp

lemma untouched_msg: "i < length (pm_objs pm) \<Longrightarrow> untouched i pm (handle_msg j msg pm)"
  using untouched_discovered [of i "emit b e pm" for b e] by (cases msg) (auto simp: untouched_def grows_def)

lemma untouched_health: "untouched i pm (runHealthChecks pm)"
  unfolding runHealthChecks_def Let_def by (rule untouched_fold) (rule untouched_remove)

lemma untouched_stop: "untouched i pm (client_Stop_cancel pm)"
proof -
  let ?f = "\<lambda>(addr, j) pm. disconnect (mp_peer (pm_objs pm ! j)) (upd_obj j cancelPeer pm)"
  have "untouched i pm (fold ?f (pm_peers pm) pm)"
    by (rule untouched_fold) (auto simp: untouched_cancel)
  then show ?thesis by (simp add: client_Stop_cancel_def untouched_def grows_def)
qed

lemma untouched_exit:
  "i \<noteq> j \<Longrightarrow> loop_exit j pm = Next pm' \<Longrightarrow> untouched i pm pm'"
  by (auto simp: loop_exit_def goto_def untouched_def grows_def split: if_splits)

lemma untouched_goto: "i \<noteq> j \<Longrightarrow> untouched i pm pm' \<Longrightarrow> untouched i pm (goto j l pm')"
  unfolding goto_def by (erule untouched_trans) (rule untouched_other)

lemma untouched_conns: "untouched i pm (pm\<lparr>pm_conns := cs\<rparr>)"
  by (simp add: untouched_def grows_def)

lemma untouched_loop:
  assumes "i \<noteq> j" and "loop_step j ok pm = Next pm'"
  shows "untouched i pm pm'"
proof (cases "po_pc (pm_objs pm ! j)")
  case L_Evict
  with assms have "loop_exit j (evictPeer j pm) = Next pm'" by (simp add: loop_step_def)
  then have "untouched i (evictPeer j pm) pm'" by (rule untouched_exit [OF assms(1)])
  moreover have "untouched i pm (evictPeer j pm)" by (simp add: evictPeer_def untouched_remove)
  ultimately show ?thesis by (rule untouched_trans [rotated])
next
  case L_SetPeer
  with assms untouched_conns [of i pm "pm_conns pm @ [True]"] show ?thesis
    by (auto simp: loop_step_def intro!: untouched_goto intro: untouched_trans [OF _ untouched_other])
qed (use assms in \<open>auto simp: loop_step_def intro!: untouched_goto untouched_other
        dest: untouched_exit split: if_splits option.splits\<close>)

text \<open>The loop's own steps keep what \<open>grows\<close> says.\<close>

lemma grows_upd:
  assumes "\<And>ob. mp_address (f ob) = mp_address ob" and "\<And>ob. mp_cancelled (f ob) = mp_cancelled ob"
  shows "grows i pm (upd_obj j f pm)"
  by (simp add: grows_def update_keep [of mp_address, OF assms(1)] update_keep [of mp_cancelled, OF assms(2)])

lemma grows_goto: "grows i pm pm' \<Longrightarrow> grows i pm (goto j l pm')"
  unfolding goto_def by (erule grows_trans, rule grows_upd) simp_all

lemma grows_upd': "grows i pm pm' \<Longrightarrow> (\<And>ob. mp_address (f ob) = mp_address ob) \<Longrightarrow>
    (\<And>ob. mp_cancelled (f ob) = mp_cancelled ob) \<Longrightarrow> grows i pm (upd_obj j f pm')"
  by (erule grows_trans, rule grows_upd) simp_all

lemma grows_emit [simp]: "grows i pm (emit b e pm') = grows i pm pm'"
  by (simp add: grows_def)

lemma grows_exit: "loop_exit j pm = Next pm' \<Longrightarrow> grows i pm pm'"
proof -
  assume "loop_exit j pm = Next pm'"
  then have pm': "pm' = goto j L_Exited (pm\<lparr>pm_wg := pm_wg pm - 1\<rparr>)"
    by (simp add: loop_exit_def split: if_splits)
  show ?thesis unfolding pm' by (rule grows_goto) (simp add: grows_def)
qed

lemma grows_loop:
  assumes "loop_step j ok pm = Next pm'"
  shows "grows i pm pm'"
proof (cases "po_pc (pm_objs pm ! j)")
  case L_Evict
  with assms have "loop_exit j (evictPeer j pm) = Next pm'" by (simp add: loop_step_def)
  then have "grows i (evictPeer j pm) pm'" by (rule grows_exit)
  moreover have "grows i pm (evictPeer j pm)"
    using untouched_remove [of i pm] by (simp add: evictPeer_def untouched_def)
  ultimately show ?thesis by (rule grows_trans [rotated])
next
  case L_SetPeer
  have "grows i pm (pm\<lparr>pm_conns := cs\<rparr>)" for cs by (simp add: grows_def)
  with L_SetPeer assms show ?thesis
    by (auto simp: loop_step_def managed_peer_defs intro!: grows_goto grows_upd')
qed (use assms in \<open>auto simp: loop_step_def managed_peer_defs intro!: grows_goto grows_upd
        dest: grows_exit split: if_splits option.splits\<close>)

section \<open>Every action\<close>

definition loop_of :: "nat \<Rightarrow> action \<Rightarrow> bool" where
  "loop_of i a \<longleftrightarrow> (\<exists>ok. a = ALoop i ok)"

lemma loop_of_simps [simp]:
  "loop_of i (ALoop j ok) \<longleftrightarrow> j = i"
  by (auto simp: loop_of_def)

lemma silent_Next [simp]: "silent r = Next (e, pm) \<longleftrightarrow> e = None \<and> r = Next pm"
  by (auto simp: silent_def split: outcome.splits)

lemma enabled_Next [simp]: "enabled_if b r = Next x \<longleftrightarrow> b \<and> r = Next x"
  by (simp add: enabled_if_def)

lemma exec_untouched:
  assumes i: "i < length (pm_objs pm)" and "\<not> loop_of i a" and "client_exec pm a = Next (e, pm')"
  shows "untouched i pm pm'"
proof (cases a)
  case (AAddPeer c b)
  with assms untouched_spawn [OF i] show ?thesis by (auto simp: addPeer_def split: if_splits)
next
  case (ARemovePeer b)
  with assms untouched_remove [of i pm b] show ?thesis by simp
next
  case (ALoop j ok)
  with assms show ?thesis by (auto intro: untouched_loop)
next
  case AStart
  with assms show ?thesis by (auto simp: client_Start_def untouched_def grows_def split: if_splits)
next
  case AStopClose
  with assms show ?thesis by (auto simp: client_Stop_close_def untouched_def grows_def split: if_splits)
next
  case AStopGraceful
  with assms show ?thesis by (auto simp: client_Stop_graceful_def untouched_def grows_def split: if_splits)
next
  case AStopTimeout
  with assms show ?thesis by (auto simp: client_Stop_timeout_def untouched_def grows_def)
next
  case AHealthExit
  with assms show ?thesis by (auto simp: health_exit_def untouched_def grows_def split: if_splits)
qed (use assms in \<open>auto simp: untouched_stop untouched_health untouched_msg untouched_cancel\<close>)

lemma exec_grows:
  assumes "i < length (pm_objs pm)" and "client_exec pm a = Next (e, pm')"
  shows "grows i pm pm'"
proof (cases "loop_of i a")
  case True
  with assms show ?thesis by (auto simp: loop_of_def intro: grows_loop)
next
  case False
  with assms exec_untouched show ?thesis by (auto simp: untouched_def)
qed

lemma exec_done:
  assumes "client_exec pm a = Next (e, pm')" and "pm_done pm"
  shows "pm_done pm'"
proof (cases "\<exists>i. i < length (pm_objs pm)")
  case True
  with exec_grows [OF _ assms(1)] assms(2) show ?thesis by (auto simp: grows_def)
next
  case False
  have disc: "pm_done (addDiscoveredPeers as q) = pm_done q" for as q
    by (induction as q rule: addDiscoveredPeers.induct) (simp_all add: spawn_peer_def)
  have rem: "pm_done q" if "removePeer b pm = (err, q)" for b err q
    using removePeer_fields(7) [of b pm] that assms(2) by simp
  have "pm_done (runHealthChecks pm)" "pm_done (client_Stop_cancel pm)"
    using untouched_health [of 0 pm] untouched_stop [of 0 pm] assms(2)
    by (simp_all add: untouched_def grows_def)
  with False assms disc rem show ?thesis
    by (cases a) (auto simp: client_Start_def client_Stop_close_def client_Stop_graceful_def
        client_Stop_timeout_def health_exit_def addPeer_def spawn_peer_def split: if_splits)
qed

lemma run_done: "client_run pm as = Next pm' \<Longrightarrow> pm_done pm \<Longrightarrow> pm_done pm'"
  by (induction as arbitrary: pm) (auto split: outcome.splits intro: exec_done)

section \<open>How far a loop can still go\<close>

fun pc_rank :: "loop_pc \<Rightarrow> nat" where
  "pc_rank L_Exited = 0"
| "pc_rank L_Top = 1"
| "pc_rank L_Evict = 1"
| "pc_rank L_Wait = 2"
| "pc_rank L_CheckFailure = 3"
| "pc_rank L_IncFailure = 4"
| "pc_rank L_DialFailed = 5"
| "pc_rank L_OnDisconnected = 3"
| "pc_rank L_Clear = 4"
| "pc_rank L_Disconnected = 5"
| "pc_rank L_Block = 6"
| "pc_rank L_GetAddr = 7"
| "pc_rank L_OnConnected = 8"
| "pc_rank L_Reset = 9"
| "pc_rank L_Connected = 10"
| "pc_rank L_SetPeer = 11"
| "pc_rank L_NewPeer = 12"
| "pc_rank L_Dial = 13"
| "pc_rank L_Connecting = 14"

lemma pc_rank_le: "pc_rank l \<le> 14"
  by (cases l) simp_all

text \<open>Told to end: the peer's context is cancelled, or the manager's channel is closed.\<close>

definition told_to_end :: "nat \<Rightarrow> manager \<Rightarrow> bool" where
  "told_to_end i pm \<longleftrightarrow> pm_done pm \<or> mp_cancelled (pm_objs pm ! i)"

lemma goto_pc [simp]: "i < length (pm_objs pm) \<Longrightarrow> po_pc (pm_objs (goto i l pm) ! i) = l"
  by (simp add: goto_def)

lemma goto_length [simp]: "length (pm_objs (goto i l pm)) = length (pm_objs pm)"
  by (simp add: goto_def)

lemma exit_pc: "loop_exit i pm = Next pm' \<Longrightarrow> i < length (pm_objs pm) \<Longrightarrow> po_pc (pm_objs pm' ! i) = L_Exited"
  by (auto simp: loop_exit_def split: if_splits)

lemma loop_step_rank:
  assumes i: "i < length (pm_objs pm)" and "told_to_end i pm" and "loop_step i ok pm = Next pm'"
  shows "pc_rank (po_pc (pm_objs pm' ! i)) < pc_rank (po_pc (pm_objs pm ! i))"
proof (cases "po_pc (pm_objs pm ! i)")
  case L_Evict
  with assms exit_pc [of i "evictPeer i pm" pm'] show ?thesis by (simp add: loop_step_def evictPeer_def)
qed (use assms in \<open>auto simp: loop_step_def told_to_end_def isStopping_def dest: exit_pc
        split: if_splits option.splits\<close>)

lemma told_to_end_exec:
  "i < length (pm_objs pm) \<Longrightarrow> told_to_end i pm \<Longrightarrow> client_exec pm a = Next (e, pm') \<Longrightarrow> told_to_end i pm'"
  using exec_grows [of i pm a e pm'] by (auto simp: told_to_end_def grows_def)

text \<open>In any run, goroutine \<open>i\<close> makes at most \<open>pc_rank\<close> steps once it has been told to end.\<close>

lemma own_steps_bounded:
  assumes "i < length (pm_objs pm)" and "told_to_end i pm" and "client_run pm as = Next pm'"
  shows "length (filter (loop_of i) as) + pc_rank (po_pc (pm_objs pm' ! i)) \<le> pc_rank (po_pc (pm_objs pm ! i))"
  using assms
proof (induction as arbitrary: pm)
  case Nil
  then show ?case by simp
next
  case (Cons a as)
  then obtain e pm1 where a: "client_exec pm a = Next (e, pm1)" and as: "client_run pm1 as = Next pm'"
    by (auto split: outcome.splits)
  have g: "grows i pm pm1" by (rule exec_grows [OF Cons.prems(1) a])
  with Cons.prems(1) have "i < length (pm_objs pm1)" by (simp add: grows_def)
  with Cons.IH [OF this _ as] told_to_end_exec [OF Cons.prems(1,2) a]
  have IH: "length (filter (loop_of i) as) + pc_rank (po_pc (pm_objs pm' ! i)) \<le> pc_rank (po_pc (pm_objs pm1 ! i))"
    by simp
  show ?case
  proof (cases "loop_of i a")
    case True
    then obtain ok where "loop_step i ok pm = Next pm1" using a by (auto simp: loop_of_def)
    with loop_step_rank [OF Cons.prems(1,2)] IH True show ?thesis by fastforce
  next
    case False
    with exec_untouched [OF Cons.prems(1) False a] IH show ?thesis by (simp add: untouched_def)
  qed
qed

text \<open>It is never stuck on the way, except in \<open>WaitForDisconnect\<close> on a connection that is up.\<close>

lemma loop_step_blocked:
  assumes "manager_inv pm" and "i < length (pm_objs pm)" and "told_to_end i pm"
  shows "loop_step i ok pm = Blocked \<longleftrightarrow>
     po_pc (pm_objs pm ! i) = L_Exited \<or>
     po_pc (pm_objs pm ! i) = L_Block \<and> (\<exists>c. mp_peer (pm_objs pm ! i) = Some c \<and> pm_conns pm ! c)"
  using assms
  by (cases "po_pc (pm_objs pm ! i)") (auto simp: loop_step_def loop_exit_def told_to_end_def
      split: if_splits option.splits)

end
