(* ===== verification/Client_Ops.thy ===== *)
theory Client_Ops
  imports Client_Live
begin

text \<open>
  What the operations of the registry do in full: peer discovery, the health check, and the
  eviction of a peer whose connection attempts keep failing.
\<close>

section \<open>Peer discovery\<close>

definition spawn_all :: "string list \<Rightarrow> manager \<Rightarrow> manager" where
  "spawn_all addrs pm =
     pm\<lparr>pm_objs := pm_objs pm @ map (\<lambda>a. new_obj a False False) addrs,
        pm_peers := pm_peers pm @ zip addrs [length (pm_objs pm)..<length (pm_objs pm) + length addrs],
        pm_wg := pm_wg pm + int (length addrs)\<rparr>"

text \<open>The addresses that a message adds: the first new ones, as many as there is room for.\<close>

definition room :: "manager \<Rightarrow> nat" where
  "room pm = nat (pm_maxPeers pm - int (length (pm_peers pm)))"

definition discovered :: "net_addr list \<Rightarrow> manager \<Rightarrow> string list" where
  "discovered as pm = take (room pm) (first_occs (fst ` set (pm_peers pm)) (map addr_string as))"

lemma update_new: "map_of ps a = None \<Longrightarrow> AList.update a i ps = ps @ [(a, i)]"
  by (induction ps) (auto split: if_splits)

lemma spawn_all_Nil [simp]: "spawn_all [] pm = pm"
  by (simp add: spawn_all_def)

lemma spawn_all_Cons:
  "map_of (pm_peers pm) a = None \<Longrightarrow> spawn_all as (spawn_peer a False False pm) = spawn_all (a # as) pm"
  by (simp add: spawn_all_def spawn_peer_def update_new upt_conv_Cons algebra_simps del: upt_Suc)

lemma addDiscoveredPeers_spec: "addDiscoveredPeers as pm = spawn_all (discovered as pm) pm"
proof (induction as pm rule: addDiscoveredPeers.induct)
  case (1 pm)
  then show ?case by (simp add: discovered_def)
next
  case (2 a as pm)
  show ?case
  proof (cases "pm_maxPeers pm \<le> int (length (pm_peers pm))")
    case True
    then show ?thesis by (simp add: discovered_def room_def)
  next
    case False
    show ?thesis
    proof (cases "map_of (pm_peers pm) (addr_string a)")
      case None
      have "discovered (a # as) pm = addr_string a # discovered as (spawn_peer (addr_string a) False False pm)"
        using False None nat_add_distrib [of 1 "int (length (pm_peers pm))"]
        by (auto simp: discovered_def room_def spawn_peer_def update_new map_of_eq_None_iff take_Cons'
            nat_diff_distrib' algebra_simps)
      with 2 False None show ?thesis by (simp add: spawn_all_Cons)
    next
      case (Some j)
      then have "addr_string a \<in> fst ` set (pm_peers pm)" by (force dest: map_of_SomeD)
      with 2 False Some show ?thesis by (simp add: discovered_def)
    qed
  qed
qed

section \<open>Addresses\<close>

definition is_digit :: "char \<Rightarrow> bool" where
  "is_digit c \<longleftrightarrow> 48 \<le> (of_char c :: nat) \<and> (of_char c :: nat) \<le> 57"

definition digit_val :: "char \<Rightarrow> nat" where
  "digit_val c = of_char c - 48"

lemma digit_char_simps [simp]: "d < 10 \<Longrightarrow> is_digit (digit_char d)" "d < 10 \<Longrightarrow> digit_val (digit_char d) = d"
  by (simp_all add: is_digit_def digit_val_def digit_char_def)

fun read_nat :: "nat \<Rightarrow> string \<Rightarrow> nat" where
  "read_nat acc [] = acc"
| "read_nat acc (c # cs) = read_nat (10 * acc + digit_val c) cs"

lemma read_nat_append: "read_nat acc (cs @ ds) = read_nat (read_nat acc cs) ds"
  by (induction acc cs rule: read_nat.induct) simp_all

lemma read_show_nat: "read_nat 0 (show_nat n) = n"
proof (induction n rule: show_nat.induct)
  case (1 n)
  then show ?case
    by (cases "n < 10") (simp_all add: show_nat.simps [of n] read_nat_append)
qed

lemma show_nat_inject: "show_nat m = show_nat n \<longleftrightarrow> m = n"
  by (metis read_show_nat)

lemma show_nat_digits: "\<forall>c \<in> set (show_nat n). is_digit c"
proof (induction n rule: show_nat.induct)
  case (1 n)
  then show ?case by (cases "n < 10") (auto simp: show_nat.simps [of n])
qed

lemma colon_not_digit: "\<not> is_digit CHR '':''"
  by (simp add: is_digit_def)

lemma split_at_colon:
  assumes "xs @ CHR '':'' # ds = ys @ CHR '':'' # es"
    and "\<forall>c \<in> set ds. is_digit c" and "\<forall>c \<in> set es. is_digit c"
  shows "xs = ys \<and> ds = es"
proof -
  let ?P = "\<lambda>c. is_digit c"
  have tw: "takeWhile ?P (rev (zs @ CHR '':'' # fs)) = rev fs" if "\<forall>c \<in> set fs. is_digit c" for zs fs
    using that colon_not_digit by (simp add: takeWhile_append)
  have "rev ds = rev es" using tw [OF assms(2), of xs] tw [OF assms(3), of ys] assms(1) by simp
  with assms(1) show ?thesis by simp
qed

lemma addr_string_inject:
  "addr_string a = addr_string b \<longleftrightarrow> na_ip a = na_ip b \<and> na_port a = na_port b"
proof
  assume "addr_string a = addr_string b"
  with split_at_colon [of "na_ip a" "show_nat (unat (na_port a))" "na_ip b" "show_nat (unat (na_port b))"]
  show "na_ip a = na_ip b \<and> na_port a = na_port b"
    by (simp add: addr_string_def show_nat_digits show_nat_inject word_unat_eq_iff)
qed (simp add: addr_string_def)

section \<open>The health check\<close>

abbreviation remove_all :: "string list \<Rightarrow> manager \<Rightarrow> manager" where
  "remove_all A \<equiv> fold (\<lambda>addr pm. snd (removePeer addr pm)) A"

lemma remove_all_peers: "pm_peers (remove_all A pm) = filter (\<lambda>(b, _). b \<notin> set A) (pm_peers pm)"
  by (induction A arbitrary: pm) (auto simp: AList.delete_eq filter_filter intro!: filter_cong)

lemma remove_cancelled:
  "mp_cancelled (pm_objs (snd (removePeer a pm)) ! i) \<longleftrightarrow>
     mp_cancelled (pm_objs pm ! i) \<or> map_of (pm_peers pm) a = Some i \<and> i < length (pm_objs pm)"
  by (cases "map_of (pm_peers pm) a") (auto simp: removePeer_None removePeer_Some update_nth cancelPeer_def)

lemma remove_all_cancelled:
  "mp_cancelled (pm_objs (remove_all A pm) ! i) \<longleftrightarrow>
     mp_cancelled (pm_objs pm ! i) \<or> (\<exists>a \<in> set A. map_of (pm_peers pm) a = Some i) \<and> i < length (pm_objs pm)"
proof (induction A arbitrary: pm)
  case (Cons a A)
  show ?case
    by (simp add: Cons [of "snd (removePeer a pm)"] remove_cancelled) auto
qed simp

text \<open>A connection that is down stays down, and removal takes the peer's connection down.\<close>

lemma update_False: "\<not> xs ! c \<Longrightarrow> \<not> (xs[d := False]) ! c"
  by (cases "d < length xs") (auto simp: nth_list_update list_update_beyond)

lemma remove_conn_down: "\<not> pm_conns pm ! c \<Longrightarrow> \<not> pm_conns (snd (removePeer a pm)) ! c"
  by (cases "map_of (pm_peers pm) a")
     (auto simp: removePeer_None removePeer_Some emit_def disconnect_def upd_obj_def update_False
       split: option.splits)

lemma remove_all_conn_down: "\<not> pm_conns pm ! c \<Longrightarrow> \<not> pm_conns (remove_all A pm) ! c"
  by (induction A arbitrary: pm) (simp_all add: remove_conn_down)

lemma emit_conns [simp]: "pm_conns (emit b e pm) = pm_conns pm"
  by (simp add: emit_def)

lemma disconnect_down:
  "c < length (pm_conns pm) \<Longrightarrow> \<not> pm_conns (disconnect (Some c) pm) ! c"
  by (simp add: disconnect_def)

lemma remove_all_conns:
  assumes "a \<in> set A" and "map_of (pm_peers pm) a = Some j" and "mp_peer (pm_objs pm ! j) = Some c"
    and "c < length (pm_conns pm)"
  shows "\<not> pm_conns (remove_all A pm) ! c"
  using assms
proof (induction A arbitrary: pm)
  case (Cons b A)
  show ?case
  proof (cases "b = a")
    case True
    with Cons.prems have "\<not> pm_conns (snd (removePeer b pm)) ! c"
      by (simp add: removePeer_Some disconnect_down)
    then show ?thesis by (simp add: remove_all_conn_down)
  next
    case False
    with Cons show ?thesis by (simp add: removePeer_peers)
  qed
qed simp

lemma health_check_peers:
  assumes "distinct (map fst (pm_peers pm))"
  shows "pm_peers (runHealthChecks pm) = filter (\<lambda>(a, i). \<not> unhealthy pm i) (pm_peers pm)"
proof -
  have "a \<in> fst ` {(a, i) \<in> set (pm_peers pm). unhealthy pm i} \<longleftrightarrow> unhealthy pm i"
    if "(a, i) \<in> set (pm_peers pm)" for a i
    using that assms by (force dest: eq_key_imp_eq_value)
  then show ?thesis
    by (auto simp: runHealthChecks_def remove_all_peers intro!: filter_cong)
qed

end
