(* ===== verification/Client_Evict.thy ===== *)
theory Client_Evict
  imports Client_Ops
begin

text \<open>
  The retry loop of a peer that cannot be reached: each failed attempt is one round of the
  connection loop, and the round that brings the counter to the threshold evicts the peer and
  ends the goroutine. Concrete executions of the client are defined here too.
\<close>

section \<open>Failing rounds\<close>

text \<open>
  The seven steps of a failing round: top of the loop, status, \<open>DialContext\<close> (which fails),
  status, counter, threshold, and the timer or the eviction.
\<close>

definition failing_round :: "nat \<Rightarrow> action list" where
  "failing_round i = map (ALoop i) [True, True, False, True, True, True, True]"

definition failed_once :: "peer_obj \<Rightarrow> peer_obj" where
  "failed_once ob = ob\<lparr>mp_status := PeerStatusDisconnected, mp_failureCount := mp_failureCount ob + 1\<rparr>"

lemma run_loop_Cons:
  "loop_step i ok pm = Next pm' \<Longrightarrow> i < length (pm_objs pm) \<Longrightarrow>
   client_run pm (ALoop i ok # as) = client_run pm' as"
  by (simp add: enabled_if_def silent_def)

lemma run_append:
  "client_run pm (as @ bs) = (case client_run pm as of Next pm' \<Rightarrow> client_run pm' bs | Blocked \<Rightarrow> Blocked | Panic s \<Rightarrow> Panic s)"
  by (induction as arbitrary: pm) (auto split: outcome.splits)

lemma upd_obj_upd_obj [simp]: "i < length (pm_objs pm) \<Longrightarrow> upd_obj i f (upd_obj i g pm) = upd_obj i (\<lambda>ob. f (g ob)) pm"
  by (simp add: upd_obj_def)

lemma upd_obj_cong: "f (pm_objs pm ! i) = g (pm_objs pm ! i) \<Longrightarrow> upd_obj i f pm = upd_obj i g pm"
  by (simp add: upd_obj_def)

text \<open>A round as one function on the object.\<close>

lemma failing_steps:
  assumes i: "i < length (pm_objs pm)" and top: "po_pc (pm_objs pm ! i) = L_Top"
    and "\<not> pm_done pm" and "\<not> mp_cancelled (pm_objs pm ! i)"
  shows "client_run pm (failing_round i) =
     client_run (upd_obj i (\<lambda>ob. (failed_once ob)\<lparr>po_pc := L_CheckFailure\<rparr>) pm) [ALoop i True, ALoop i True]"
proof -
  let ?at = "\<lambda>l f. upd_obj i (\<lambda>ob. (f ob)\<lparr>po_pc := l\<rparr>) pm"
  have s1: "loop_step i True pm = Next (?at L_Connecting (\<lambda>ob. ob))"
    using assms by (simp add: loop_step_def isStopping_def goto_def)
  have s2: "loop_step i True (?at L_Connecting (\<lambda>ob. ob)) = Next (?at L_Dial (setStatus PeerStatusConnecting))"
    using i by (simp add: loop_step_def goto_upd_obj setStatus_def)
  have s3: "loop_step i False (?at L_Dial (setStatus PeerStatusConnecting)) =
      Next (?at L_DialFailed (setStatus PeerStatusConnecting))"
    using i by (simp add: loop_step_def goto_def)
  have s4: "loop_step i True (?at L_DialFailed (setStatus PeerStatusConnecting)) =
      Next (?at L_IncFailure (setStatus PeerStatusDisconnected))"
    using i by (simp add: loop_step_def goto_upd_obj setStatus_def)
  have s5: "loop_step i True (?at L_IncFailure (setStatus PeerStatusDisconnected)) = Next (?at L_CheckFailure failed_once)"
    using i by (simp add: loop_step_def goto_upd_obj setStatus_def incrementFailure_def failed_once_def)
  show ?thesis
    unfolding failing_round_def list.map
    by (simp only: run_loop_Cons [OF s1 i] run_loop_Cons [OF s2] run_loop_Cons [OF s3] run_loop_Cons [OF s4]
        run_loop_Cons [OF s5] upd_obj_fields length_list_update i)
qed

lemma failing_round_retry:
  assumes "i < length (pm_objs pm)" and "po_pc (pm_objs pm ! i) = L_Top"
    and "\<not> pm_done pm" and "\<not> mp_cancelled (pm_objs pm ! i)"
    and "sint (mp_failureCount (pm_objs pm ! i) + 1) < sint (pm_maxFailureCount pm)"
  shows "client_run pm (failing_round i) = Next (upd_obj i failed_once pm)"
proof -
  let ?at = "\<lambda>l. upd_obj i (\<lambda>ob. (failed_once ob)\<lparr>po_pc := l\<rparr>) pm"
  have s6: "loop_step i True (?at L_CheckFailure) = Next (?at L_Wait)"
    using assms by (simp add: loop_step_def goto_def failed_once_def)
  have s7: "loop_step i True (?at L_Wait) = Next (?at L_Top)"
    using assms by (simp add: loop_step_def goto_def)
  have "?at L_Top = upd_obj i failed_once pm"
    using assms(2) by (intro upd_obj_cong) (simp add: failed_once_def)
  then show ?thesis
    unfolding failing_steps [OF assms(1-4)]
    by (simp only: run_loop_Cons [OF s6] run_loop_Cons [OF s7] upd_obj_fields length_list_update assms(1) client_run.simps(1))
qed

lemma failing_round_evicts:
  assumes inv: "manager_inv pm" and i: "i < length (pm_objs pm)" and "po_pc (pm_objs pm ! i) = L_Top"
    and "\<not> pm_done pm" and "\<not> mp_cancelled (pm_objs pm ! i)"
    and limit: "sint (pm_maxFailureCount pm) \<le> sint (mp_failureCount (pm_objs pm ! i) + 1)"
  shows "\<exists>pm'. client_run pm (failing_round i) = Next pm' \<and> po_pc (pm_objs pm' ! i) = L_Exited \<and>
     pm_peers pm' = AList.delete (mp_address (pm_objs pm ! i)) (pm_peers pm)"
proof -
  let ?at = "\<lambda>l. upd_obj i (\<lambda>ob. (failed_once ob)\<lparr>po_pc := l\<rparr>) pm"
  have s6: "loop_step i True (?at L_CheckFailure) = Next (?at L_Evict)"
    using assms by (simp add: loop_step_def goto_def failed_once_def)
  have wg: "0 < pm_wg pm"
    using inv live_pos [OF i] assms(3) by (simp add: manager_inv_def)
  have s7: "loop_step i True (?at L_Evict) = loop_exit i (evictPeer i (?at L_Evict))"
    using i by (simp add: loop_step_def)
  obtain pm' where pm': "loop_exit i (evictPeer i (?at L_Evict)) = Next pm'"
    using wg by (auto simp: loop_exit_def evictPeer_def)
  have "po_pc (pm_objs pm' ! i) = L_Exited"
    using exit_pc [OF pm'] i by (simp add: evictPeer_def)
  moreover have "pm_peers pm' = AList.delete (mp_address (pm_objs pm ! i)) (pm_peers pm)"
    using pm' i by (auto simp: loop_exit_def goto_def evictPeer_def failed_once_def split: if_splits)
  moreover have "client_run pm (failing_round i) = Next pm'"
    unfolding failing_steps [OF assms(2-5)]
    by (simp only: run_loop_Cons [OF s6] run_loop_Cons [OF s7 [unfolded pm']] upd_obj_fields i
        length_list_update client_run.simps(1))
  ultimately show ?thesis by blast
qed

lemma upd_failed_inv:
  assumes "manager_inv pm" and "i < length (pm_objs pm)" and "po_pc (pm_objs pm ! i) = L_Top"
    and "\<not> pm_done pm" and "\<not> mp_cancelled (pm_objs pm ! i)"
    and "sint (mp_failureCount (pm_objs pm ! i) + 1) < sint (pm_maxFailureCount pm)"
  shows "manager_inv (upd_obj i failed_once pm)"
proof -
  have "manager_inv pm'" if "manager_inv q" "client_run q as = Next pm'" for q as pm'
    using that by (induction as arbitrary: q) (auto split: outcome.splits intro: client_exec_inv)
  with failing_round_retry [OF assms(2-6)] assms(1) show ?thesis by blast
qed

text \<open>After as many failing rounds as the counter is below the threshold, the peer is gone.\<close>

lemma failing_rounds_evict:
  assumes "manager_inv pm" and "i < length (pm_objs pm)" and "po_pc (pm_objs pm ! i) = L_Top"
    and "\<not> pm_done pm" and "\<not> mp_cancelled (pm_objs pm ! i)"
    and "sint (pm_maxFailureCount pm) = sint (mp_failureCount (pm_objs pm ! i)) + 1 + int n"
  shows "\<exists>pm'. client_run pm (concat (replicate (Suc n) (failing_round i))) = Next pm' \<and>
     po_pc (pm_objs pm' ! i) = L_Exited \<and>
     pm_peers pm' = AList.delete (mp_address (pm_objs pm ! i)) (pm_peers pm)"
  using assms
proof (induction n arbitrary: pm)
  case 0
  have "sint (mp_failureCount (pm_objs pm ! i) + 1) = sint (mp_failureCount (pm_objs pm ! i)) + 1"
    using 0(6) by (intro sint_plus_one [of _ "pm_maxFailureCount pm"]) simp
  with 0(6) have "sint (pm_maxFailureCount pm) \<le> sint (mp_failureCount (pm_objs pm ! i) + 1)" by simp
  from failing_round_evicts [OF 0(1-5) this] show ?case by simp
next
  case (Suc n)
  have c: "sint (mp_failureCount (pm_objs pm ! i) + 1) = sint (mp_failureCount (pm_objs pm ! i)) + 1"
    using Suc.prems(6) by (intro sint_plus_one [of _ "pm_maxFailureCount pm"]) simp
  with Suc.prems(6) have lt: "sint (mp_failureCount (pm_objs pm ! i) + 1) < sint (pm_maxFailureCount pm)" by simp
  let ?pm = "upd_obj i failed_once pm"
  have "\<exists>pm'. client_run ?pm (concat (replicate (Suc n) (failing_round i))) = Next pm' \<and>
     po_pc (pm_objs pm' ! i) = L_Exited \<and>
     pm_peers pm' = AList.delete (mp_address (pm_objs ?pm ! i)) (pm_peers ?pm)"
    by (rule Suc.IH) (use Suc.prems c upd_failed_inv [OF Suc.prems(1-5) lt] in \<open>simp_all add: failed_once_def\<close>)
  then show ?case
    unfolding replicate_Suc [of "Suc n"] concat.simps run_append failing_round_retry [OF Suc.prems(2-5) lt]
    using Suc.prems(2) by (simp add: failed_once_def)
qed

section \<open>Concrete executions\<close>

definition demo_params :: chain_params where
  "demo_params = \<lparr>cp_Name = ''mainnet'', cp_DefaultPort = ''8333'', cp_DNSSeeds = [''seed''], cp_GenesisHash = [0]\<rparr>"

definition demo_listeners :: listeners where
  "demo_listeners = no_listeners\<lparr>ml_OnPeerConnected := True, ml_OnPeerDisconnected := True\<rparr>"

text \<open>A client with both connection callbacks, two peers at most, and eviction after \<open>n\<close> failures.\<close>

definition demo_client :: "32 word \<Rightarrow> manager" where
  "demo_client n =
     newPeerManager ((client_DefaultConfig demo_params :: unit client_config)
       \<lparr>cc_MaxPeers := 2, cc_MaxFailureCount := n, cc_Listeners := Some demo_listeners\<rparr>)"

lemma demo_client_new:
  assumes "0 < sint n"
  shows "NewBtcClient [client_WithMaxPeers 2 :: unit client_option, client_WithMaxFailureCount n, client_WithListeners (Some demo_listeners)]
     demo_params = Inr (demo_client n)"
  using assms
  by (simp add: NewBtcClient_def apply_options_def client_option_defs client_validate_def client_DefaultConfig_def
      second_def demo_client_def)

lemma demo_client_reach: "0 < sint n \<Longrightarrow> reach (demo_client n)"
  by (rule reach_new [OF demo_client_new])

text \<open>The state a run ends in; each run below is defined.\<close>

fun state_of :: "manager outcome \<Rightarrow> manager" where
  "state_of (Next pm) = pm"
| "state_of Blocked = demo_client 1"
| "state_of (Panic s) = demo_client 1"

fun ends :: "manager outcome \<Rightarrow> bool" where
  "ends (Next pm) = True"
| "ends Blocked = False"
| "ends (Panic s) = False"

lemma demo_run_reach:
  "0 < sint n \<Longrightarrow> ends (client_run (demo_client n) as) \<Longrightarrow> reach (state_of (client_run (demo_client n) as))"
  by (cases "client_run (demo_client n) as") (auto intro: reach_run demo_client_reach)

text \<open>
  \<open>Stop\<close> overtakes a dial: the connection is made, and stored only after \<open>Stop\<close> has looked for
  one to close.
\<close>

definition overtaken_dial :: "action list" where
  "overtaken_dial =
     [AStart, AAddPeer False ''p''] @ map (ALoop 0) [True, True, True, True] @
     [AStopClose, AStopCancel] @ map (ALoop 0) [True, True, True, True, True] @ [AHealthExit]"

text \<open>A peer is replaced while its loop is about to evict it.\<close>

definition replaced_peer :: "action list" where
  "replaced_peer =
     [AAddPeer False ''p''] @ map (ALoop 0) [True, True, False, True, True, True] @
     [ARemovePeer ''p'', AAddPeer False ''p'']"

text \<open>A connected peer is removed, and its loop then sees the connection close.\<close>

definition removed_while_connected :: "action list" where
  "removed_while_connected =
     [AAddPeer False ''p''] @ map (ALoop 0) [True, True, True, True, True, True, True, True, True] @
     [ARemovePeer ''p''] @ map (ALoop 0) [True, True, True, True]"

lemmas demo_simps = demo_client_def newPeerManager_def client_DefaultConfig_def demo_listeners_def no_listeners_def
  enabled_if_def silent_def client_Start_def client_Stop_close_def client_Stop_cancel_def health_exit_def
  addPeer_def removePeer_def evictPeer_def spawn_peer_def new_obj_def loop_step_def loop_exit_def goto_def
  isStopping_def upd_obj_def emit_def disconnect_def managed_peer_defs PeerStatus_defs Let_def

end
