(* ===== verification/Client_Props.thy ===== *)
theory Client_Props
  imports Client_Evict
begin

text \<open>
  The properties of the P2P client: what holds in every reachable state, what each operation of
  the API does, how goroutines end, and the executions that show where shutdown and eviction go
  wrong. The runs used as examples are those of \<open>Client_Evict\<close>.
\<close>

section \<open>Invariants\<close>

text \<open>C4. In every reachable state the registry holds at most \<open>MaxPeers\<close> peers, one per address,
  each entry points to an object with that address, and every object that is no longer registered
  has had its context cancelled.\<close>

theorem client_registry_consistent:
  assumes "reach pm"
  shows "int (length (pm_peers pm)) \<le> pm_maxPeers pm \<and>
     distinct (map fst (pm_peers pm)) \<and>
     (\<forall>(a, i) \<in> set (pm_peers pm). i < length (pm_objs pm) \<and> mp_address (pm_objs pm ! i) = a) \<and>
     (\<forall>i < length (pm_objs pm). i \<notin> snd ` set (pm_peers pm) \<longrightarrow> mp_cancelled (pm_objs pm ! i))"
  using reach_inv [OF assms] by (auto simp: manager_inv_def registry_ok_def)

lemma client_registry_consistent_witness:
  "mp_cancelled (pm_objs (state_of (client_run (demo_client 1) replaced_peer)) ! 0)"
proof -
  let ?pm = "state_of (client_run (demo_client 1) replaced_peer)"
  have "reach ?pm" by (rule demo_run_reach) (simp, code_simp)
  note c = client_registry_consistent [OF this]
  have "0 < length (pm_objs ?pm)" "0 \<notin> snd ` set (pm_peers ?pm)" by code_simp+
  with c show ?thesis by blast
qed

text \<open>C8. In every reachable state a peer's status is fixed by where its connection loop is; its
  failure counter lies between 0 and \<open>MaxFailureCount\<close>, the \<open>int32\<close> increment never wraps, and the
  status \<open>PeerStatusUnhealthy\<close> is never set.\<close>

theorem peer_status_and_counter:
  assumes "reach pm" and "ob \<in> set (pm_objs pm)"
  shows "mp_status ob = pc_status (po_pc ob) \<and> mp_status ob \<noteq> PeerStatusUnhealthy \<and>
     0 \<le> sint (mp_failureCount ob) \<and> sint (mp_failureCount ob) \<le> sint (pm_maxFailureCount pm) \<and>
     (po_pc ob = L_IncFailure \<longrightarrow>
        sint (mp_failureCount (snd (incrementFailure ob))) = sint (mp_failureCount ob) + 1)"
proof -
  have ok: "obj_ok (pm_maxFailureCount pm) (length (pm_conns pm)) ob"
    using reach_inv [OF assms(1)] assms(2) by (simp add: manager_inv_def objs_ok_def)
  then have "mp_status ob \<noteq> PeerStatusUnhealthy"
    by (auto simp: obj_ok_def pc_status_def PeerStatus_defs)
  with ok sint_plus_one [of "mp_failureCount ob" "pm_maxFailureCount pm"] show ?thesis
    by (auto simp: obj_ok_def counter_bound_def incrementFailure_def)
qed

lemma peer_status_and_counter_witness:
  "mp_status (pm_objs (state_of (client_run (demo_client 3) overtaken_dial)) ! 0) \<noteq> PeerStatusUnhealthy"
proof -
  let ?pm = "state_of (client_run (demo_client 3) overtaken_dial)"
  have "reach ?pm" by (rule demo_run_reach) (simp, code_simp)
  moreover have "0 < length (pm_objs ?pm)" by code_simp
  ultimately show ?thesis using peer_status_and_counter [of ?pm "pm_objs ?pm ! 0"] by auto
qed



section \<open>Shutting down\<close>


definition stopped_run :: "action list" where
  "stopped_run =
     [AStart, AAddPeer False ''p''] @ map (ALoop 0) [True, True, False, True, True, True] @
     [AStopClose, AStopCancel, AHealthExit, ALoop 0 False]"


text \<open>C27. Once the channel \<open>done\<close> is closed the client cannot be stopped again: after any further
  actions \<open>Stop\<close> either reports \<open>ErrClientNotStarted\<close> or, when \<open>Start\<close> has been called again or
  the first \<open>Stop\<close> timed out, panics.\<close>

theorem no_second_stop:
  assumes "pm_done pm" and "client_run pm as = Next pm'" and "pm_stop pm' = StopIdle"
  shows "client_exec pm' AStopClose =
     (if pm_started pm' then Panic ''close of closed channel'' else Next (Some ErrClientNotStarted, pm'))"
proof -
  have "pm_done pm'" by (rule run_done [OF assms(2,1)])
  with assms(3) show ?thesis by (simp add: enabled_if_def client_Stop_close_def)
qed

lemma no_second_stop_witness:
  "client_exec (state_of (client_run (demo_client 3) (stopped_run @ [AStopGraceful, AStart]))) AStopClose =
     Panic ''close of closed channel''"
proof -
  let ?pm = "state_of (client_run (demo_client 3) stopped_run)"
  have d: "pm_done ?pm" by code_simp
  obtain pm' where r: "client_run ?pm [AStopGraceful, AStart] = Next pm'"
    and s: "pm_stop pm' = StopIdle" "pm_started pm'"
    and e: "state_of (client_run (demo_client 3) (stopped_run @ [AStopGraceful, AStart])) = pm'"
    by (simp add: stopped_run_def client_Stop_graceful_def demo_simps)
  from no_second_stop [OF d r s(1)] s(2) show ?thesis by (simp only: e if_True)
qed

text \<open>C10. Once a peer's context is cancelled or the client is stopping, its connection loop makes at
  most 14 more steps, whatever the other goroutines do; and it is never stuck before its end except
  in \<open>WaitForDisconnect\<close> on a connection that is still up.\<close>

theorem told_loops_end:
  assumes "reach pm" and "i < length (pm_objs pm)" and "pm_done pm \<or> mp_cancelled (pm_objs pm ! i)"
    and "client_run pm as = Next pm'"
  shows "length (filter (loop_of i) as) \<le> 14 \<and>
     (loop_step i ok pm' = Blocked \<longleftrightarrow>
        po_pc (pm_objs pm' ! i) = L_Exited \<or>
        po_pc (pm_objs pm' ! i) = L_Block \<and> (\<exists>c. mp_peer (pm_objs pm' ! i) = Some c \<and> pm_conns pm' ! c))"
proof -
  have t: "told_to_end i pm" using assms(3) by (simp add: told_to_end_def)
  have "length (filter (loop_of i) as) \<le> 14"
    using own_steps_bounded [OF assms(2) t assms(4)] pc_rank_le [of "po_pc (pm_objs pm ! i)"] by simp
  moreover have "i < length (pm_objs pm') \<and> told_to_end i pm'"
    using assms(2,4) t
  proof (induction as arbitrary: pm)
    case (Cons a as)
    then obtain e pm1 where a: "client_exec pm a = Next (e, pm1)" and as: "client_run pm1 as = Next pm'"
      by (auto split: outcome.splits)
    have "i < length (pm_objs pm1)"
      using exec_grows [OF Cons.prems(1) a] Cons.prems(1) by (simp add: grows_def)
    with Cons.IH [OF _ as] told_to_end_exec [OF Cons.prems(1,3) a] show ?case by blast
  qed simp
  moreover have "manager_inv pm'" by (rule reach_inv) (rule reach_run [OF assms(1,4)])
  ultimately show ?thesis using loop_step_blocked by blast
qed

lemma told_loops_end_witness:
  "loop_step 0 True (state_of (client_run (demo_client 3) overtaken_dial)) = Blocked"
proof -
  let ?pm = "state_of (client_run (demo_client 3) overtaken_dial)"
  have r: "reach ?pm" by (rule demo_run_reach) (simp, code_simp)
  have f: "0 < length (pm_objs ?pm)" "pm_done ?pm" by code_simp+
  have "client_run ?pm [] = Next ?pm" by simp
  from told_loops_end [OF r f(1) _ this] f(2)
  have "loop_step 0 True ?pm = Blocked \<longleftrightarrow>
        po_pc (pm_objs ?pm ! 0) = L_Exited \<or>
        po_pc (pm_objs ?pm ! 0) = L_Block \<and> (\<exists>c. mp_peer (pm_objs ?pm ! 0) = Some c \<and> pm_conns ?pm ! c)"
    by blast
  moreover have "po_pc (pm_objs ?pm ! 0) = L_Block" "mp_peer (pm_objs ?pm ! 0) = Some 0" "pm_conns ?pm ! 0"
    by code_simp+
  ultimately show ?thesis by blast
qed

text \<open>C25. A dial that \<open>Stop\<close> overtakes leaves a live connection behind: in a reachable state \<open>Stop\<close>
  is waiting, every peer has been cancelled, no goroutine can move, and \<open>Stop\<close> cannot end other than
  by its timeout, because the loop waits on a connection that nobody closes.\<close>

theorem stop_overtakes_dial:
  "\<exists>pm. reach pm \<and> pm_stop pm = StopWaiting \<and> list_all mp_cancelled (pm_objs pm) \<and>
     pm_conns pm = [True] \<and> client_exec pm AStopGraceful = Blocked \<and> client_exec pm AHealthExit = Blocked \<and>
     client_exec pm AHealthTick = Blocked \<and> (\<forall>i ok. client_exec pm (ALoop i ok) = Blocked)"
proof -
  let ?pm = "state_of (client_run (demo_client 3) overtaken_dial)"
  have "reach ?pm" by (rule demo_run_reach) (simp, code_simp)
  moreover have "client_exec ?pm AStopGraceful = Blocked" "client_exec ?pm AHealthExit = Blocked"
    "client_exec ?pm AHealthTick = Blocked" "pm_stop ?pm = StopWaiting" "pm_conns ?pm = [True]"
    "list_all mp_cancelled (pm_objs ?pm)"
    by code_simp+
  moreover have "length (pm_objs ?pm) = 1" "po_pc (pm_objs ?pm ! 0) = L_Block"
    "mp_peer (pm_objs ?pm ! 0) = Some 0" "pm_conns ?pm ! 0"
    by code_simp+
  then have "\<forall>i ok. client_exec ?pm (ALoop i ok) = Blocked"
    by (auto simp: enabled_if_def silent_def loop_step_def less_Suc0)
  ultimately show ?thesis by blast
qed

section \<open>Failures and eviction\<close>

text \<open>C15. A registered peer with a zero counter whose dials all fail is gone after exactly
  \<open>MaxFailureCount\<close> attempts: its loop evicts it and ends, and its address is free again.\<close>

theorem unreachable_peer_evicted:
  assumes "reach pm" and "map_of (pm_peers pm) addr = Some i" and "po_pc (pm_objs pm ! i) = L_Top"
    and "mp_failureCount (pm_objs pm ! i) = 0" and "\<not> pm_done pm" and "\<not> mp_cancelled (pm_objs pm ! i)"
  shows "\<exists>pm'. client_run pm (concat (replicate (nat (sint (pm_maxFailureCount pm))) (failing_round i))) = Next pm' \<and>
     po_pc (pm_objs pm' ! i) = L_Exited \<and> map_of (pm_peers pm') addr = None \<and>
     pm_peers pm' = AList.delete addr (pm_peers pm)"
proof -
  have inv: "manager_inv pm" by (rule reach_inv [OF assms(1)])
  have i: "i < length (pm_objs pm)" "mp_address (pm_objs pm ! i) = addr"
    using inv map_of_SomeD [OF assms(2)] by (auto simp: manager_inv_def registry_ok_def)
  have m: "0 < sint (pm_maxFailureCount pm)" using inv by (simp add: manager_inv_def)
  then have suc: "nat (sint (pm_maxFailureCount pm)) = Suc (nat (sint (pm_maxFailureCount pm) - 1))" by simp
  have "sint (pm_maxFailureCount pm) =
      sint (mp_failureCount (pm_objs pm ! i)) + 1 + int (nat (sint (pm_maxFailureCount pm) - 1))"
    using m assms(4) by simp
  from failing_rounds_evict [OF inv i(1) assms(3,5,6) this]
  show ?thesis by (auto simp: suc i(2) simp del: replicate_Suc concat.simps)
qed

lemma unreachable_peer_evicted_witness:
  "\<exists>pm'. client_run (state_of (client_run (demo_client 3) [AAddPeer False ''p'']))
     (concat (replicate 3 (failing_round 0))) = Next pm' \<and> pm_peers pm' = []"
proof -
  let ?pm = "state_of (client_run (demo_client 3) [AAddPeer False ''p''])"
  have r: "reach ?pm" by (rule demo_run_reach) (simp, code_simp)
  have f: "map_of (pm_peers ?pm) ''p'' = Some 0" "po_pc (pm_objs ?pm ! 0) = L_Top"
    "mp_failureCount (pm_objs ?pm ! 0) = 0" "\<not> pm_done ?pm" "\<not> mp_cancelled (pm_objs ?pm ! 0)"
    "nat (sint (pm_maxFailureCount ?pm)) = 3" "AList.delete ''p'' (pm_peers ?pm) = []"
    by code_simp+
  from unreachable_peer_evicted [OF r f(1-5)] show ?thesis unfolding f(6,7) by blast
qed

text \<open>C26. Eviction goes by address: in a reachable state, a loop that is about to evict its own peer
  removes and cancels a different one, which was added under the same address and has no failures.\<close>

theorem eviction_removes_replacement:
  "\<exists>pm pm' i j addr. reach pm \<and> i \<noteq> j \<and> map_of (pm_peers pm) addr = Some j \<and>
     mp_failureCount (pm_objs pm ! j) = 0 \<and> \<not> mp_cancelled (pm_objs pm ! j) \<and>
     client_exec pm (ALoop i True) = Next (None, pm') \<and>
     pm_peers pm' = [] \<and> mp_cancelled (pm_objs pm' ! j)"
proof -
  let ?pm = "state_of (client_run (demo_client 1) replaced_peer)"
  let ?pm' = "state_of (client_run (demo_client 1) (replaced_peer @ [ALoop 0 True]))"
  have "reach ?pm" by (rule demo_run_reach) (simp, code_simp)
  moreover have "map_of (pm_peers ?pm) ''p'' = Some 1" "mp_failureCount (pm_objs ?pm ! 1) = 0"
    "\<not> mp_cancelled (pm_objs ?pm ! 1)" "pm_peers ?pm' = []" "mp_cancelled (pm_objs ?pm' ! 1)"
    by code_simp+
  moreover have "client_exec ?pm (ALoop 0 True) = Next (None, ?pm')"
    by (simp add: replaced_peer_def demo_simps)
  ultimately show ?thesis by (metis zero_neq_one)
qed

text \<open>C17. The health check removes exactly the registered peers whose counter has reached the
  threshold: the others keep their entries, and a removed peer is cancelled and its connection is
  down. The order in which the map is visited plays no part in what is removed.\<close>

theorem health_check_removes_unhealthy:
  assumes "reach pm"
  shows "pm_peers (runHealthChecks pm) = filter (\<lambda>(a, i). \<not> unhealthy pm i) (pm_peers pm) \<and>
     (\<forall>(a, i) \<in> set (pm_peers pm).
        (mp_cancelled (pm_objs (runHealthChecks pm) ! i) \<longleftrightarrow> mp_cancelled (pm_objs pm ! i) \<or> unhealthy pm i) \<and>
        (\<forall>c. unhealthy pm i \<longrightarrow> mp_peer (pm_objs pm ! i) = Some c \<longrightarrow> \<not> pm_conns (runHealthChecks pm) ! c))"
proof -
  have inv: "manager_inv pm" by (rule reach_inv [OF assms])
  then have reg: "registry_ok (pm_peers pm) (pm_objs pm)" by (simp add: manager_inv_def)
  then have d: "distinct (map fst (pm_peers pm))" by (simp add: registry_ok_def)
  let ?A = "map fst (filter (\<lambda>(addr, i). unhealthy pm i) (pm_peers pm))"
  have run: "runHealthChecks pm = remove_all ?A pm" by (simp add: runHealthChecks_def)
  have "(mp_cancelled (pm_objs (remove_all ?A pm) ! i) \<longleftrightarrow> mp_cancelled (pm_objs pm ! i) \<or> unhealthy pm i) \<and>
      (\<forall>c. unhealthy pm i \<longrightarrow> mp_peer (pm_objs pm ! i) = Some c \<longrightarrow> \<not> pm_conns (remove_all ?A pm) ! c)"
    if p: "(a, i) \<in> set (pm_peers pm)" for a i
  proof -
    have m: "map_of (pm_peers pm) a = Some i" using d p by simp
    have i: "i < length (pm_objs pm)" "mp_address (pm_objs pm ! i) = a" using reg p by (auto simp: registry_ok_def)
    have mem: "unhealthy pm i \<Longrightarrow> a \<in> set ?A" using p by force
    have back_addr: "b = a" if "map_of (pm_peers pm) b = Some i" for b
      using map_of_SomeD [OF that] reg i(2) by (auto simp: registry_ok_def)
    have "a \<in> set ?A \<Longrightarrow> unhealthy pm i" using d p by (auto dest: eq_key_imp_eq_value)
    with remove_all_cancelled [of ?A pm i] m i(1) mem back_addr
    have "mp_cancelled (pm_objs (remove_all ?A pm) ! i) \<longleftrightarrow> mp_cancelled (pm_objs pm ! i) \<or> unhealthy pm i"
      by metis
    moreover have "c < length (pm_conns pm)" if "mp_peer (pm_objs pm ! i) = Some c" for c
      using inv_obj [OF inv i(1)] that by (simp add: obj_ok_def)
    ultimately show ?thesis using remove_all_conns [OF mem m] by blast
  qed
  with health_check_peers [OF d] show ?thesis unfolding run by blast
qed

lemma health_check_removes_unhealthy_witness:
  "pm_peers (runHealthChecks (state_of (client_run (demo_client 1)
     ([AAddPeer False ''p'', AAddPeer False ''q''] @ map (ALoop 0) [True, True, False, True, True])))) = [(''q'', 1)]"
proof -
  let ?pm = "state_of (client_run (demo_client 1)
     ([AAddPeer False ''p'', AAddPeer False ''q''] @ map (ALoop 0) [True, True, False, True, True]))"
  have r: "reach ?pm" by (rule demo_run_reach) (simp, code_simp)
  have "filter (\<lambda>(a, i). \<not> unhealthy ?pm i) (pm_peers ?pm) = [(''q'', 1)]" by code_simp
  with health_check_removes_unhealthy [OF r] show ?thesis by metis
qed

section \<open>The registry's operations\<close>

text \<open>\<open>AddPeer\<close> succeeds exactly when the address is new and there is room. It then registers a
  new disconnected object with a zero counter whose loop is at its start, and changes no other
  object; when it fails it names the reason and changes nothing.\<close>

theorem addPeer_outcomes:
  assumes "addPeer cancelled addr pm = (e, pm')"
  shows "(e = None \<longleftrightarrow> addr \<notin> fst ` set (pm_peers pm) \<and> int (length (pm_peers pm)) < pm_maxPeers pm) \<and>
     (e = None \<longrightarrow>
        map_of (pm_peers pm') = (map_of (pm_peers pm))(addr \<mapsto> length (pm_objs pm)) \<and>
        length (pm_peers pm') = length (pm_peers pm) + 1 \<and>
        pm_objs pm' = pm_objs pm @ [new_obj addr True cancelled] \<and>
        pm_wg pm' = pm_wg pm + 1 \<and> pm_conns pm' = pm_conns pm) \<and>
     (e \<noteq> None \<longrightarrow> pm' = pm \<and>
        e = Some (if addr \<in> fst ` set (pm_peers pm) then ErrPeerAlreadyExists else ErrMaxPeersReached))"
proof (cases "map_of (pm_peers pm) addr")
  case None
  then have "addr \<notin> fst ` set (pm_peers pm)" by (simp add: map_of_eq_None_iff)
  moreover have "[addr \<mapsto> n] ++ map_of (pm_peers pm) = (map_of (pm_peers pm))(addr \<mapsto> n)" for n
    using None by (auto simp: map_add_def split: option.splits)
  ultimately show ?thesis using None assms
    by (auto simp: addPeer_def spawn_peer_def update_new split: if_splits)
next
  case (Some j)
  then have "addr \<in> fst ` set (pm_peers pm)" by (force dest: map_of_SomeD)
  with Some assms show ?thesis by (auto simp: addPeer_def)
qed

lemma addPeer_outcomes_witness: "pm_objs (snd (addPeer False ''p'' (demo_client 3))) = [new_obj ''p'' True False]"
proof -
  obtain e pm' where a: "addPeer False ''p'' (demo_client 3) = (e, pm')" by force
  have "pm_peers (demo_client 3) = []" "pm_objs (demo_client 3) = []" "pm_maxPeers (demo_client 3) = 2"
    by (simp_all add: demo_simps)
  with addPeer_outcomes [OF a] a show ?thesis by simp
qed

text \<open>C40. Adding a new peer and removing it again gives back the registry and the other objects; the
  peer's own object stays, cancelled, until its goroutine ends, and the callback runs if it is set.\<close>

theorem add_remove_roundtrip:
  assumes "addPeer cancelled addr pm = (None, pm1)" and "removePeer addr pm1 = (e, pm2)"
  shows "e = None \<and> pm_peers pm2 = pm_peers pm \<and>
     pm_objs pm2 = pm_objs pm @ [new_obj addr True True] \<and> pm_conns pm2 = pm_conns pm \<and>
     pm_trace pm2 = pm_trace pm @
       (if ml_OnPeerDisconnected (pm_listeners pm) then [EvDisconnected (length (pm_objs pm))] else [])"
proof -
  have new: "map_of (pm_peers pm) addr = None"
    and pm1: "pm1 = spawn_peer addr True cancelled pm"
    using assms(1) by (auto simp: addPeer_def split: if_splits)
  have reg: "pm_peers pm1 = pm_peers pm @ [(addr, length (pm_objs pm))]"
    by (simp add: pm1 spawn_peer_def update_new [OF new])
  then have "map_of (pm_peers pm1) addr = Some (length (pm_objs pm))"
    using new by (simp add: map_add_def)
  from removePeer_Some [OF this] assms(2)
  have pm2: "e = None" "pm2 = emit (ml_OnPeerDisconnected (pm_listeners pm1)) (EvDisconnected (length (pm_objs pm)))
       ((disconnect (mp_peer (pm_objs pm1 ! length (pm_objs pm))) (upd_obj (length (pm_objs pm)) cancelPeer pm1))
          \<lparr>pm_peers := AList.delete addr (pm_peers pm1)\<rparr>)" by simp_all
  have del: "AList.delete addr (pm_peers pm1) = pm_peers pm"
    using new by (force simp: reg AList.delete_eq map_of_eq_None_iff intro!: filter_True)
  show ?thesis
    unfolding pm2 del
    by (simp add: pm1 spawn_peer_def new_obj_def cancelPeer_def emit_def disconnect_def upd_obj_def)
qed

lemma add_remove_roundtrip_witness:
  "pm_peers (snd (removePeer ''p'' (snd (addPeer False ''p'' (demo_client 3))))) = []"
proof -
  let ?pm1 = "snd (addPeer False ''p'' (demo_client 3))"
  have a: "addPeer False ''p'' (demo_client 3) = (None, ?pm1)" by (simp add: demo_simps)
  obtain e pm2 where r: "removePeer ''p'' ?pm1 = (e, pm2)" by force
  have "pm_peers (demo_client 3) = []" by (simp add: demo_simps)
  with add_remove_roundtrip [OF a r] r show ?thesis by simp
qed

text \<open>C18. Peer discovery adds the first new addresses of the message, once each and in order, as many
  as there is room for, each with an object of its own; what was registered stays.\<close>

theorem discovery_adds_first_new:
  "let new = take (nat (pm_maxPeers pm - int (length (pm_peers pm))))
               (first_occs (fst ` set (pm_peers pm)) (map addr_string as));
       n = length (pm_objs pm);
       pm' = addDiscoveredPeers as pm
   in pm_peers pm' = pm_peers pm @ zip new [n..<n + length new] \<and>
      pm_objs pm' = pm_objs pm @ map (\<lambda>a. new_obj a False False) new \<and>
      pm_wg pm' = pm_wg pm + int (length new) \<and> pm_conns pm' = pm_conns pm"
  unfolding Let_def addDiscoveredPeers_spec by (simp add: spawn_all_def discovered_def room_def)

text \<open>The registry key of a discovered peer determines its IP text and its port, so two
  endpoints never share an entry.\<close>

theorem discovered_key_injective:
  "addr_string a = addr_string b \<longleftrightarrow> na_ip a = na_ip b \<and> na_port a = na_port b"
  by (rule addr_string_inject)

text \<open>\<open>OnPeerDisconnected\<close> can run twice for one connection: a peer that is removed while it is
  connected is reported by \<open>RemovePeer\<close> and again by its own loop.\<close>

theorem disconnected_reported_twice:
  "\<exists>pm i. reach pm \<and> length (pm_conns pm) = 1 \<and>
     filter (\<lambda>ev. ev = EvConnected i) (pm_trace pm) = [EvConnected i] \<and>
     filter (\<lambda>ev. ev = EvDisconnected i) (pm_trace pm) = [EvDisconnected i, EvDisconnected i]"
proof -
  let ?pm = "state_of (client_run (demo_client 3) removed_while_connected)"
  have "reach ?pm" by (rule demo_run_reach) (simp, code_simp)
  moreover have "length (pm_conns ?pm) = 1" by code_simp
  moreover have "filter (\<lambda>ev. ev = EvConnected 0) (pm_trace ?pm) = [EvConnected 0]" by code_simp
  moreover have "filter (\<lambda>ev. ev = EvDisconnected 0) (pm_trace ?pm) = [EvDisconnected 0, EvDisconnected 0]" by code_simp
  ultimately show ?thesis by blast
qed

text \<open>\<open>NewBtcClient\<close> succeeds exactly when the configuration that the options produce is sane, and
  then gives an idle manager with that configuration and no peers; it fails with
  \<open>ErrInvalidConfig\<close> otherwise.\<close>

theorem NewBtcClient_outcomes:
  "let cfg = apply_options opts (client_DefaultConfig mainNet)
   in case NewBtcClient opts mainNet of
       Inr pm \<Rightarrow> client_config_ok cfg \<and> pm_chainParams pm = cc_ChainParams cfg \<and>
         pm_maxPeers pm = cc_MaxPeers cfg \<and> pm_maxFailureCount pm = cc_MaxFailureCount cfg \<and>
         pm_peers pm = [] \<and> pm_objs pm = [] \<and> \<not> pm_started pm \<and> \<not> pm_done pm \<and>
         pm_listeners pm = (case cc_Listeners cfg of None \<Rightarrow> no_listeners | Some l \<Rightarrow> l)
     | Inl e \<Rightarrow> \<not> client_config_ok cfg \<and> (\<exists>s. e = ErrInvalidConfig s)"
  by (auto simp: Let_def NewBtcClient_def newPeerManager_def client_validate_def client_config_ok_def
      split: sum.splits if_splits option.splits)

end
