(* ===== verification/Client_Env.thy ===== *)
theory Client_Env
  imports Client_Evict
begin

text \<open>
  What happens to a client while its user is between two API calls: goroutines step, messages
  arrive, connections drop, contexts end. Such background actions leave the life cycle alone, and
  do nothing to the registry of a client that has never had a peer.
\<close>

fun background :: "action \<Rightarrow> bool" where
  "background (ALoop i ok) = True"
| "background AHealthTick = True"
| "background AHealthExit = True"
| "background (AMessage i msg) = True"
| "background (AConnDrop c) = True"
| "background (ACtxDone i) = True"
| "background a = False"

definition same_cycle :: "manager \<Rightarrow> manager \<Rightarrow> bool" where
  "same_cycle pm pm' \<longleftrightarrow> pm_started pm' = pm_started pm \<and> pm_done pm' = pm_done pm \<and>
     pm_stop pm' = pm_stop pm \<and> pm_maxPeers pm' = pm_maxPeers pm \<and> pm_listeners pm' = pm_listeners pm"

lemma same_cycle_refl [simp]: "same_cycle pm pm"
  by (simp add: same_cycle_def)

lemma same_cycle_trans: "same_cycle pm1 pm2 \<Longrightarrow> same_cycle pm2 pm3 \<Longrightarrow> same_cycle pm1 pm3"
  by (simp add: same_cycle_def)

lemma same_cycle_upd [simp]:
  "same_cycle pm (upd_obj i f pm') = same_cycle pm pm'" "same_cycle pm (emit b ev pm') = same_cycle pm pm'"
  "same_cycle pm (disconnect p pm') = same_cycle pm pm'" "same_cycle pm (goto i l pm') = same_cycle pm pm'"
  "same_cycle pm (pm'\<lparr>pm_conns := cs\<rparr>) = same_cycle pm pm'"
  "same_cycle pm (snd (removePeer a pm')) = same_cycle pm pm'"
  "same_cycle pm (spawn_peer a parent c pm') = same_cycle pm pm'"
  by (simp_all add: same_cycle_def goto_def spawn_peer_def)

lemma same_cycle_exit: "loop_exit i pm' = Next pm'' \<Longrightarrow> same_cycle pm pm'' = same_cycle pm pm'"
  by (auto simp: loop_exit_def same_cycle_def goto_def split: if_splits)

lemma same_cycle_loop: "loop_step i ok pm = Next pm' \<Longrightarrow> same_cycle pm pm'"
proof (cases "po_pc (pm_objs pm ! i)")
  case L_Evict
  moreover assume "loop_step i ok pm = Next pm'"
  ultimately have "loop_exit i (evictPeer i pm) = Next pm'" by (simp add: loop_step_def)
  from same_cycle_exit [OF this] show ?thesis by (simp add: evictPeer_def)
qed (auto simp: loop_step_def same_cycle_exit [of i pm] split: if_splits option.splits)

lemma same_cycle_discovered: "same_cycle pm (addDiscoveredPeers as pm') = same_cycle pm pm'"
  by (simp add: addDiscoveredPeers_spec spawn_all_def same_cycle_def)

lemma same_cycle_health: "same_cycle pm (runHealthChecks pm)"
proof -
  have "same_cycle pm (remove_all A q) = same_cycle pm q" for A q
    by (induction A arbitrary: q) simp_all
  then show ?thesis by (simp add: runHealthChecks_def)
qed

lemma background_cycle:
  assumes "background a" and "client_exec pm a = Next (e, pm')"
  shows "same_cycle pm pm'"
proof (cases a)
  case (AMessage i msg)
  with assms show ?thesis by (cases msg) (auto simp: same_cycle_discovered)
next
  case AHealthExit
  with assms show ?thesis by (auto simp: health_exit_def same_cycle_def split: if_splits)
qed (use assms in \<open>auto simp: same_cycle_health intro: same_cycle_loop\<close>)

lemma background_result: "background a \<Longrightarrow> client_exec pm a = Next (e, pm') \<Longrightarrow> e = None"
  by (cases a) auto

text \<open>No panic in the background.\<close>

lemma background_no_panic: "manager_inv pm \<Longrightarrow> background a \<Longrightarrow> client_exec pm a \<noteq> Panic s"
  using panic_iff_double_stop [of pm a] by (auto simp: double_stop_def)

text \<open>A client that has never had a peer: nothing but the health check can run.\<close>

definition untouched_client :: "manager \<Rightarrow> bool" where
  "untouched_client pm \<longleftrightarrow> pm_objs pm = [] \<and> pm_peers pm = []"

lemma background_untouched:
  assumes "untouched_client pm" and "background a" and "client_exec pm a = Next (e, pm')"
  shows "untouched_client pm'"
  using assms
  by (cases a) (auto simp: untouched_client_def runHealthChecks_def health_exit_def split: if_splits)

lemma untouched_addPeer:
  assumes "untouched_client pm" and "0 < pm_maxPeers pm"
  shows "addPeer c a pm = (None, spawn_peer a True c pm)"
  using assms by (simp add: addPeer_def untouched_client_def)

lemma addPeer_cycle: "same_cycle pm (snd (addPeer c a pm))"
  by (simp add: addPeer_def)

end
