(* ===== verification/Client_Entries.thy ===== *)
theory Client_Entries
  imports Client_Env
begin

text \<open>
  How entries come into the registry and leave it, over all actions of the client: new entries point
  to new objects at the start of their loop; an entry leaves by \<open>RemovePeer\<close>, by the health check
  when its counter is at the threshold, or by the eviction that a loop with its address makes.
\<close>

section \<open>Entries that come\<close>

definition new_entries :: "manager \<Rightarrow> manager \<Rightarrow> bool" where
  "new_entries pm pm' \<longleftrightarrow>
     (\<forall>(b, j) \<in> set (pm_peers pm'). (b, j) \<in> set (pm_peers pm) \<or>
        length (pm_objs pm) \<le> j \<and> po_pc (pm_objs pm' ! j) = L_Top)"

lemma new_entriesI: "set (pm_peers pm') \<subseteq> set (pm_peers pm) \<Longrightarrow> new_entries pm pm'"
  by (auto simp: new_entries_def)

lemma removePeer_entries: "set (pm_peers (snd (removePeer a pm))) \<subseteq> set (pm_peers pm)"
  by (auto simp: set_delete)

lemma remove_all_entries: "set (pm_peers (remove_all A pm)) \<subseteq> set (pm_peers pm)"
  by (auto simp: remove_all_peers)

lemma discovered_entries: "new_entries pm (addDiscoveredPeers as pm)"
proof -
  let ?new = "discovered as pm" and ?n = "length (pm_objs pm)"
  have "?n \<le> j \<and> po_pc ((pm_objs pm @ map (\<lambda>a. new_obj a False False) ?new) ! j) = L_Top"
    if "(b, j) \<in> set (zip ?new [?n..<?n + length ?new])" for b j
    using that by (auto simp: set_zip nth_append new_obj_def)
  then show ?thesis by (fastforce simp: addDiscoveredPeers_spec spawn_all_def new_entries_def)
qed

lemma addPeer_entries: "new_entries pm (snd (addPeer c a pm))"
  by (auto simp: addPeer_def spawn_peer_def new_entries_def update_new nth_append new_obj_def)

lemma loop_entries:
  assumes "loop_step i ok pm = Next pm'"
  shows "set (pm_peers pm') \<subseteq> set (pm_peers pm)"
proof (cases "po_pc (pm_objs pm ! i)")
  case L_Evict
  then have "loop_exit i (evictPeer i pm) = Next pm'" using assms by (simp add: loop_step_def)
  then have "pm_peers pm' = pm_peers (evictPeer i pm)"
    by (auto simp: loop_exit_def goto_def split: if_splits)
  then show ?thesis by (auto simp: evictPeer_def set_delete)
qed (use assms in \<open>auto simp: loop_step_def loop_exit_def goto_def split: if_splits option.splits\<close>)

lemma handle_msg_entries: "new_entries pm (handle_msg i msg pm)"
proof (cases msg)
  case (MsgAddr as)
  then show ?thesis
    using discovered_entries [of "emit (ml_OnAddr (pm_listeners pm)) (EvAddr i) pm" as]
    by (simp add: new_entries_def)
qed (simp_all add: new_entriesI)

lemma stop_cancel_peers [simp]: "pm_peers (client_Stop_cancel pm) = pm_peers pm"
proof -
  have "pm_peers (fold (\<lambda>(addr, i) pm. disconnect (mp_peer (pm_objs pm ! i)) (upd_obj i cancelPeer pm)) ps q) = pm_peers q"
    for ps q
    by (rule fold_field) auto
  then show ?thesis by (simp add: client_Stop_cancel_def)
qed

lemma exec_entries:
  assumes "client_exec pm a = Next (e, pm')"
  shows "new_entries pm pm'"
proof (cases a)
  case (AAddPeer c b)
  with assms addPeer_entries [of pm c b] show ?thesis by auto
next
  case (AMessage i msg)
  with assms handle_msg_entries show ?thesis by auto
next
  case (ALoop i ok)
  with assms show ?thesis by (auto intro!: new_entriesI dest: loop_entries)
next
  case (ARemovePeer b)
  with assms removePeer_entries [of b pm] show ?thesis by (auto intro!: new_entriesI)
qed (use assms in \<open>auto intro!: new_entriesI simp: client_Start_def client_Stop_close_def client_Stop_graceful_def
       client_Stop_timeout_def health_exit_def runHealthChecks_def remove_all_peers split: if_splits\<close>)

section \<open>A registered peer whose goroutine has ended\<close>

text \<open>Its counter is below the threshold: a loop that ends at the threshold has removed its entry.\<close>

definition ended_below :: "manager \<Rightarrow> bool" where
  "ended_below pm \<longleftrightarrow>
     (\<forall>(b, j) \<in> set (pm_peers pm). po_pc (pm_objs pm ! j) = L_Exited \<longrightarrow>
        sint (mp_failureCount (pm_objs pm ! j)) < sint (pm_maxFailureCount pm))"

lemma own_step_ended_below:
  assumes inv: "manager_inv pm" and st: "loop_step i ok pm = Next pm'" and i: "i < length (pm_objs pm)"
    and reg: "(b, i) \<in> set (pm_peers pm')" and ex: "po_pc (pm_objs pm' ! i) = L_Exited"
  shows "sint (mp_failureCount (pm_objs pm' ! i)) < sint (pm_maxFailureCount pm')"
proof -
  have ob: "obj_ok (pm_maxFailureCount pm) (length (pm_conns pm)) (pm_objs pm ! i)"
    by (rule inv_obj [OF inv i])
  have addr: "mp_address (pm_objs pm ! i) = b"
    using reg loop_entries [OF st] inv by (auto simp: manager_inv_def registry_ok_def)
  show ?thesis
  proof (cases "po_pc (pm_objs pm ! i)")
    case L_Top
    with st ob i ex show ?thesis
      by (auto simp: loop_step_def loop_exit_def goto_def obj_ok_def counter_bound_def split: if_splits)
  next
    case L_Wait
    with st ob i ex show ?thesis
      by (auto simp: loop_step_def loop_exit_def goto_def obj_ok_def counter_bound_def split: if_splits)
  next
    case L_Evict
    then have "loop_exit i (evictPeer i pm) = Next pm'" using st by (simp add: loop_step_def)
    then have "pm_peers pm' = AList.delete b (pm_peers pm)"
      by (auto simp: loop_exit_def goto_def evictPeer_def addr split: if_splits)
    with reg show ?thesis by (simp add: set_delete)
  qed (use st ex i in \<open>auto simp: loop_step_def split: if_splits option.splits\<close>)
qed

lemma exec_ended_below:
  assumes inv: "manager_inv pm" and eb: "ended_below pm" and a: "client_exec pm a = Next (e, pm')"
  shows "ended_below pm'"
proof -
  have "sint (mp_failureCount (pm_objs pm' ! j)) < sint (pm_maxFailureCount pm')"
    if reg: "(b, j) \<in> set (pm_peers pm')" and ex: "po_pc (pm_objs pm' ! j) = L_Exited" for b j
  proof -
    have old: "(b, j) \<in> set (pm_peers pm)" using exec_entries [OF a] reg ex by (auto simp: new_entries_def)
    then have j: "j < length (pm_objs pm)" using inv by (auto simp: manager_inv_def registry_ok_def)
    show ?thesis
    proof (cases "loop_of j a")
      case True
      then obtain ok where "loop_step j ok pm = Next pm'" using a by (auto simp: loop_of_def)
      from own_step_ended_below [OF inv this j reg ex] show ?thesis .
    next
      case False
      from exec_untouched [OF j False a] ex eb old show ?thesis
        by (auto simp: untouched_def grows_def ended_below_def)
    qed
  qed
  then show ?thesis by (auto simp: ended_below_def)
qed

lemma reach_ended_below: "reach pm \<Longrightarrow> ended_below pm"
proof (induction rule: reach.induct)
  case (reach_new opts mainNet pm)
  then show ?case by (simp add: ended_below_def fresh_inv)
qed (auto intro: exec_ended_below reach_inv)

section \<open>Entries that stay\<close>

lemma remove_all_keeps: "a \<notin> set A \<Longrightarrow> map_of (pm_peers (remove_all A pm)) a = map_of (pm_peers pm) a"
  by (induction A arbitrary: pm) auto

lemma health_keeps:
  assumes d: "distinct (map fst (pm_peers pm))" and m: "map_of (pm_peers pm) a = Some i" and "\<not> unhealthy pm i"
  shows "map_of (pm_peers (runHealthChecks pm)) a = Some i"
  unfolding runHealthChecks_def Let_def
  by (subst remove_all_keeps) (use assms in \<open>auto dest: eq_key_imp_eq_value map_of_SomeD\<close>)

lemma loop_keeps:
  assumes "loop_step j ok pm = Next pm'" and "po_pc (pm_objs pm ! j) = L_Evict \<Longrightarrow> mp_address (pm_objs pm ! j) \<noteq> a"
  shows "map_of (pm_peers pm') a = map_of (pm_peers pm) a"
proof (cases "po_pc (pm_objs pm ! j)")
  case L_Evict
  then have "loop_exit j (evictPeer j pm) = Next pm'" using assms(1) by (simp add: loop_step_def)
  then have "pm_peers pm' = AList.delete (mp_address (pm_objs pm ! j)) (pm_peers pm)"
    by (auto simp: loop_exit_def goto_def evictPeer_def split: if_splits)
  with L_Evict assms(2) show ?thesis by simp
qed (use assms in \<open>auto simp: loop_step_def loop_exit_def goto_def split: if_splits option.splits\<close>)

lemma discovered_keeps: "map_of (pm_peers pm) a = Some i \<Longrightarrow> map_of (pm_peers (addDiscoveredPeers as pm)) a = Some i"
  by (simp add: addDiscoveredPeers_spec spawn_all_def map_add_Some_iff map_of_append)

text \<open>New objects have addresses that were not registered.\<close>

lemma exec_length: "client_exec pm a = Next (e, pm') \<Longrightarrow> length (pm_objs pm) \<le> length (pm_objs pm')"
  using exec_grows [of 0 pm a e pm'] by (cases "pm_objs pm") (auto simp: grows_def)

lemma discovered_new: "b \<in> set (discovered as pm) \<Longrightarrow> map_of (pm_peers pm) b = None"
  by (force simp: discovered_def map_of_eq_None_iff dest!: in_set_takeD)

lemma addDiscoveredPeers_new:
  assumes "length (pm_objs pm) \<le> j" and "j < length (pm_objs (addDiscoveredPeers as pm))"
  shows "map_of (pm_peers pm) (mp_address (pm_objs (addDiscoveredPeers as pm) ! j)) = None"
  using assms by (auto simp: addDiscoveredPeers_spec spawn_all_def nth_append new_obj_def intro!: discovered_new nth_mem)

lemma handle_msg_new:
  assumes "length (pm_objs pm) \<le> j" and "j < length (pm_objs (handle_msg i msg pm))"
  shows "map_of (pm_peers pm) (mp_address (pm_objs (handle_msg i msg pm) ! j)) = None"
proof (cases msg)
  case (MsgAddr as)
  let ?pm = "emit (ml_OnAddr (pm_listeners pm)) (EvAddr i) pm"
  from assms MsgAddr show ?thesis using addDiscoveredPeers_new [of ?pm j as] by simp
qed (use assms in simp_all)

lemma remove_all_length [simp]: "length (pm_objs (remove_all A pm)) = length (pm_objs pm)"
  by (induction A arbitrary: pm) simp_all

lemma stop_cancel_length [simp]: "length (pm_objs (client_Stop_cancel pm)) = length (pm_objs pm)"
proof -
  have "length (pm_objs (fold (\<lambda>(addr, i) pm. disconnect (mp_peer (pm_objs pm ! i)) (upd_obj i cancelPeer pm)) ps q)) =
      length (pm_objs q)" for ps q
    by (rule fold_field) auto
  then show ?thesis by (simp add: client_Stop_cancel_def)
qed

lemma loop_length: "loop_step i ok pm = Next pm' \<Longrightarrow> length (pm_objs pm') = length (pm_objs pm)"
proof (cases "po_pc (pm_objs pm ! i)")
  case L_Evict
  moreover assume "loop_step i ok pm = Next pm'"
  ultimately have "loop_exit i (evictPeer i pm) = Next pm'" by (simp add: loop_step_def)
  then show ?thesis by (auto simp: loop_exit_def goto_def evictPeer_def split: if_splits)
qed (auto simp: loop_step_def loop_exit_def goto_def split: if_splits option.splits)

lemma exec_new_addresses:
  assumes "client_exec pm a = Next (e, pm')" and j: "length (pm_objs pm) \<le> j" "j < length (pm_objs pm')"
  shows "map_of (pm_peers pm) (mp_address (pm_objs pm' ! j)) = None"
proof (cases a)
  case (AAddPeer c b)
  with assms show ?thesis by (auto simp: addPeer_def spawn_peer_def nth_append new_obj_def less_Suc_eq split: if_splits)
next
  case (AMessage i msg)
  with assms handle_msg_new [OF j(1), of i msg] show ?thesis by simp
next
  case (ARemovePeer b)
  with assms removePeer_fields(1) [of b pm] show ?thesis by simp
qed (use assms in \<open>auto simp: client_Start_def client_Stop_close_def client_Stop_graceful_def client_Stop_timeout_def
       health_exit_def runHealthChecks_def dest!: loop_length split: if_splits\<close>)

section \<open>Entries without a goroutine\<close>

text \<open>
  The entry of \<open>a\<close> points to a peer whose loop has ended, and so have the loops of all other objects
  with that address.
\<close>

definition orphaned :: "string \<Rightarrow> nat \<Rightarrow> manager \<Rightarrow> bool" where
  "orphaned a i pm \<longleftrightarrow> map_of (pm_peers pm) a = Some i \<and>
     (\<forall>j < length (pm_objs pm). mp_address (pm_objs pm ! j) = a \<longrightarrow> po_pc (pm_objs pm ! j) = L_Exited)"

lemma exited_stays:
  assumes "j < length (pm_objs pm)" and "po_pc (pm_objs pm ! j) = L_Exited" and "client_exec pm a = Next (e, pm')"
  shows "po_pc (pm_objs pm' ! j) = L_Exited"
proof (cases "loop_of j a")
  case True
  with assms show ?thesis by (auto simp: loop_of_def loop_step_def)
next
  case False
  from exec_untouched [OF assms(1) False assms(3)] assms(2) show ?thesis by (simp add: untouched_def)
qed

lemma exec_orphaned:
  assumes inv: "manager_inv pm" and eb: "ended_below pm" and o': "orphaned a i pm"
    and act: "client_exec pm act = Next (e, pm')" "act \<noteq> ARemovePeer a"
  shows "orphaned a i pm'"
proof -
  have m: "map_of (pm_peers pm) a = Some i"
    and all: "\<And>j. j < length (pm_objs pm) \<Longrightarrow> mp_address (pm_objs pm ! j) = a \<Longrightarrow> po_pc (pm_objs pm ! j) = L_Exited"
    using o' by (simp_all add: orphaned_def)
  have i: "i < length (pm_objs pm)" "mp_address (pm_objs pm ! i) = a" and d: "distinct (map fst (pm_peers pm))"
    using inv map_of_SomeD [OF m] by (auto simp: manager_inv_def registry_ok_def)
  have healthy: "\<not> unhealthy pm i"
    using eb map_of_SomeD [OF m] all [OF i] by (auto simp: ended_below_def unhealthy_def)
  have "map_of (pm_peers pm') a = Some i"
  proof (cases act)
    case (AAddPeer c b)
    with act m show ?thesis by (auto simp: addPeer_def spawn_peer_def update_new map_add_Some_iff split: if_splits)
  next
    case (ALoop j ok)
    then have st: "loop_step j ok pm = Next pm'" "j < length (pm_objs pm)" using act by auto
    have "mp_address (pm_objs pm ! j) \<noteq> a" if "po_pc (pm_objs pm ! j) = L_Evict"
      using all [OF st(2)] that by auto
    from loop_keeps [OF st(1) this] m show ?thesis by simp
  next
    case (AMessage j msg)
    with act m discovered_keeps [of "emit (ml_OnAddr (pm_listeners pm)) (EvAddr j) pm" a i]
    show ?thesis by (cases msg) auto
  next
    case (ARemovePeer b)
    with act m removePeer_peers [of b pm] show ?thesis by auto
  next
    case AHealthTick
    with act health_keeps [OF d m healthy] show ?thesis by simp
  qed (use act m in \<open>auto simp: client_Start_def client_Stop_close_def client_Stop_graceful_def client_Stop_timeout_def
         health_exit_def split: if_splits\<close>)
  moreover have "po_pc (pm_objs pm' ! j) = L_Exited"
    if j: "j < length (pm_objs pm')" and addr: "mp_address (pm_objs pm' ! j) = a" for j
  proof (cases "j < length (pm_objs pm)")
    case True
    with exec_grows [OF True act(1)] addr all have "po_pc (pm_objs pm ! j) = L_Exited" by (simp add: grows_def)
    from exited_stays [OF True this act(1)] show ?thesis .
  next
    case False
    with exec_new_addresses [OF act(1) _ j] addr m show ?thesis by auto
  qed
  ultimately show ?thesis by (simp add: orphaned_def)
qed

lemma run_orphaned:
  assumes "reach pm" and "orphaned a i pm" and "client_run pm as = Next pm'" and "ARemovePeer a \<notin> set as"
  shows "orphaned a i pm'"
  using assms
proof (induction as arbitrary: pm)
  case (Cons act as)
  then obtain e pm1 where s: "client_exec pm act = Next (e, pm1)" "client_run pm1 as = Next pm'"
    by (auto split: outcome.splits)
  show ?case
  proof (rule Cons.IH [OF reach_step [OF Cons.prems(1) s(1)] _ s(2)])
    show "orphaned a i pm1"
      using exec_orphaned [OF reach_inv reach_ended_below Cons.prems(2) s(1)] Cons.prems by auto
  qed (use Cons.prems in simp)
qed simp

end
