(* ===== verification/Client_Registry.thy ===== *)
theory Client_Registry
  imports Client_Entries
begin

text \<open>
  The registry of peers as an abstract data type: a list of addresses, at most as many as the
  capacity, each with a mark that says whether its failures have reached the threshold. The
  operations of the manager implement it, through the locale \<open>simulation\<close>.
\<close>

datatype registry_op =
    RegAdd bool string
  | RegRemove string
  | RegDiscover "net_addr list"
  | RegHealthCheck
  | RegCount

datatype registry_result = RegError "client_error option" | RegNumber int

record registry =
  rg_entries :: "(string \<times> bool) list"
  rg_capacity :: int

section \<open>The specification\<close>

definition registry_add :: "string list \<Rightarrow> registry \<Rightarrow> registry" where
  "registry_add as rg = rg\<lparr>rg_entries := rg_entries rg @ map (\<lambda>a. (a, False)) as\<rparr>"

fun registry_spec :: "registry \<Rightarrow> registry_op \<Rightarrow> registry_result \<times> registry" where
  "registry_spec rg (RegAdd cancelled a) =
     (if a \<in> fst ` set (rg_entries rg) then (RegError (Some ErrPeerAlreadyExists), rg)
      else if int (length (rg_entries rg)) \<ge> rg_capacity rg then (RegError (Some ErrMaxPeersReached), rg)
      else (RegError None, registry_add [a] rg))"
| "registry_spec rg (RegRemove a) =
     (if a \<in> fst ` set (rg_entries rg)
      then (RegError None, rg\<lparr>rg_entries := filter (\<lambda>(b, f). b \<noteq> a) (rg_entries rg)\<rparr>)
      else (RegError (Some ErrPeerNotFound), rg))"
| "registry_spec rg (RegDiscover as) =
     (RegError None,
      registry_add
        (take (nat (rg_capacity rg - int (length (rg_entries rg))))
          (first_occs (fst ` set (rg_entries rg)) (map addr_string as))) rg)"
| "registry_spec rg RegHealthCheck =
     (RegError None, rg\<lparr>rg_entries := filter (\<lambda>(b, failed). \<not> failed) (rg_entries rg)\<rparr>)"
| "registry_spec rg RegCount = (RegNumber (int (length (rg_entries rg))), rg)"

section \<open>The manager as an implementation\<close>

fun registry_exec :: "manager \<Rightarrow> registry_op \<Rightarrow> registry_result \<times> manager" where
  "registry_exec pm (RegAdd cancelled a) = map_prod RegError id (addPeer cancelled a pm)"
| "registry_exec pm (RegRemove a) = map_prod RegError id (removePeer a pm)"
| "registry_exec pm (RegDiscover as) = (RegError None, addDiscoveredPeers as pm)"
| "registry_exec pm RegHealthCheck = (RegError None, runHealthChecks pm)"
| "registry_exec pm RegCount = (RegNumber (PeerCount pm), pm)"

definition registry_abs :: "manager \<Rightarrow> registry" where
  "registry_abs pm =
     \<lparr>rg_entries = map (\<lambda>(a, i). (a, unhealthy pm i)) (pm_peers pm), rg_capacity = pm_maxPeers pm\<rparr>"

lemma abs_addresses [simp]: "fst ` set (rg_entries (registry_abs pm)) = fst ` set (pm_peers pm)"
  by (force simp: registry_abs_def)

lemma abs_length [simp]: "length (rg_entries (registry_abs pm)) = length (pm_peers pm)"
  "rg_capacity (registry_abs pm) = pm_maxPeers pm"
  by (simp_all add: registry_abs_def)

text \<open>New objects have no failures, which is below any validated threshold; old ones keep theirs.\<close>

lemma abs_append:
  assumes inv: "manager_inv pm" and "pm_peers pm' = pm_peers pm @ zip as [length (pm_objs pm)..<length (pm_objs pm) + length as]"
    and "pm_objs pm' = pm_objs pm @ map (\<lambda>a. new_obj a parent c) as"
    and "pm_maxFailureCount pm' = pm_maxFailureCount pm" and "pm_maxPeers pm' = pm_maxPeers pm"
  shows "registry_abs pm' = registry_add as (registry_abs pm)"
proof -
  have m: "0 < sint (pm_maxFailureCount pm)" using inv by (simp add: manager_inv_def)
  have "unhealthy pm' i = unhealthy pm i" if "(a, i) \<in> set (pm_peers pm)" for a i
    using that inv assms(3,4) by (auto simp: unhealthy_def nth_append manager_inv_def registry_ok_def)
  then have "map (\<lambda>(a, i). (a, unhealthy pm' i)) (pm_peers pm) = map (\<lambda>(a, i). (a, unhealthy pm i)) (pm_peers pm)"
    by auto
  moreover have "map (\<lambda>(a, i). (a, unhealthy pm' i)) (zip as [length (pm_objs pm)..<length (pm_objs pm) + length as]) =
      map (\<lambda>a. (a, False)) as"
    using m assms(3,4) by (intro nth_equalityI) (auto simp: unhealthy_def new_obj_def)
  ultimately show ?thesis
    by (simp add: registry_abs_def registry_add_def assms(2,5))
qed

lemma addPeer_abs:
  assumes "manager_inv pm" and "map_of (pm_peers pm) a = None"
  shows "registry_abs (spawn_peer a parent c pm) = registry_add [a] (registry_abs pm)"
  by (rule abs_append [OF assms(1), where parent = parent and c = c])
     (simp_all add: spawn_peer_def update_new [OF assms(2)])

lemma filter_marked:
  "map (\<lambda>(a, i). (a, u i)) (filter (\<lambda>(a, i). Q a (u i)) ps) = filter (\<lambda>(a, f). Q a f) (map (\<lambda>(a, i). (a, u i)) ps)"
  by (induction ps) auto

lemma removePeer_abs:
  "registry_abs (snd (removePeer a pm)) =
   (registry_abs pm)\<lparr>rg_entries := filter (\<lambda>(b, f). b \<noteq> a) (rg_entries (registry_abs pm))\<rparr>"
proof -
  have "unhealthy (snd (removePeer a pm)) = unhealthy pm"
    by (simp add: unhealthy_def fun_eq_iff)
  moreover have "AList.delete a (pm_peers pm) = filter (\<lambda>(b, i). b \<noteq> a) (pm_peers pm)"
    by (auto simp: AList.delete_eq intro!: filter_cong)
  ultimately show ?thesis
    using filter_marked [of "unhealthy pm" "\<lambda>b f. b \<noteq> a" "pm_peers pm"] by (simp add: registry_abs_def)
qed

lemma remove_all_unhealthy: "unhealthy (remove_all A pm) i = unhealthy pm i"
  by (induction A arbitrary: pm) (simp_all add: unhealthy_def)

lemma remove_all_maxPeers: "pm_maxPeers (remove_all A pm) = pm_maxPeers pm"
  by (induction A arbitrary: pm) simp_all

lemma health_abs:
  assumes "manager_inv pm"
  shows "registry_abs (runHealthChecks pm) =
     (registry_abs pm)\<lparr>rg_entries := filter (\<lambda>(b, failed). \<not> failed) (rg_entries (registry_abs pm))\<rparr>"
proof -
  have d: "distinct (map fst (pm_peers pm))" using assms by (simp add: manager_inv_def registry_ok_def)
  have "unhealthy (runHealthChecks pm) i = unhealthy pm i" for i
    by (simp add: runHealthChecks_def remove_all_unhealthy)
  moreover have "pm_maxPeers (runHealthChecks pm) = pm_maxPeers pm"
    by (simp add: runHealthChecks_def remove_all_maxPeers)
  ultimately show ?thesis
    using filter_marked [of "unhealthy pm" "\<lambda>b f. \<not> f" "pm_peers pm"]
    by (simp add: registry_abs_def health_check_peers [OF d])
qed

interpretation peer_registry: simulation registry_exec registry_spec registry_abs manager_inv
proof
  fix pm x
  assume inv: "manager_inv pm"
  have new: "map_of (pm_peers pm) a = None \<longleftrightarrow> a \<notin> fst ` set (pm_peers pm)" for a
    by (simp add: map_of_eq_None_iff)
  show "fst (registry_exec pm x) = fst (registry_spec (registry_abs pm) x)"
  proof (cases x)
    case (RegAdd c a)
    then show ?thesis using new [of a] by (auto simp: addPeer_def)
  next
    case (RegRemove a)
    then show ?thesis
      using new [of a] by (cases "map_of (pm_peers pm) a") (auto simp: removePeer_None removePeer_Some)
  qed (simp_all add: PeerCount_def)
  show "registry_abs (snd (registry_exec pm x)) = snd (registry_spec (registry_abs pm) x)"
  proof (cases x)
    case (RegAdd c a)
    then show ?thesis using new [of a] addPeer_abs [OF inv, of a] by (auto simp: addPeer_def)
  next
    case (RegRemove a)
    then show ?thesis using new [of a] removePeer_abs [of a pm]
      by (cases "map_of (pm_peers pm) a") (auto simp: removePeer_None)
  next
    case (RegDiscover as)
    have "registry_abs (addDiscoveredPeers as pm) = registry_add (discovered as pm) (registry_abs pm)"
      by (rule abs_append [OF inv, where parent = False and c = False])
         (simp_all add: addDiscoveredPeers_spec spawn_all_def)
    with RegDiscover show ?thesis by (simp add: discovered_def room_def)
  next
    case RegHealthCheck
    then show ?thesis by (simp add: health_abs [OF inv])
  qed simp
  show "manager_inv (snd (registry_exec pm x))"
    using inv by (cases x) (simp_all add: addPeer_inv inv_remove discovered_inv health_check_inv)
qed

end
