(* ===== verification/Registry_Props.thy ===== *)
theory Registry_Props
  imports Client_Registry
begin

text \<open>
  Properties of the registry of peers over the client's whole behaviour: it implements a bounded list
  of addresses, the health check only anticipates evictions, entries can outlive their goroutine, and
  a waiting \<open>Stop\<close> waits for live connections only.
\<close>

text \<open>C5. The registry refines a bounded list of addresses. From any reachable state, and for every
  sequence of additions, removals, discoveries, health checks and counts, the manager returns what
  the abstract registry returns and ends with its entries: each address once and in order, marked
  when its failures have reached the threshold, never more than the capacity.\<close>

theorem registry_refines_list:
  assumes "reach pm"
  shows "fst (run_ops registry_exec pm xs) = fst (run_ops registry_spec (registry_abs pm) xs) \<and>
     registry_abs (snd (run_ops registry_exec pm xs)) = snd (run_ops registry_spec (registry_abs pm) xs) \<and>
     distinct (map fst (rg_entries (snd (run_ops registry_spec (registry_abs pm) xs)))) \<and>
     int (length (rg_entries (snd (run_ops registry_spec (registry_abs pm) xs)))) \<le> pm_maxPeers pm"
proof -
  let ?pm = "snd (run_ops registry_exec pm xs)"
  have inv: "manager_inv pm" by (rule reach_inv [OF assms])
  have abs: "registry_abs ?pm = snd (run_ops registry_spec (registry_abs pm) xs)"
    by (rule peer_registry.run_abs [OF inv])
  have "pm_maxPeers (snd (registry_exec q x)) = pm_maxPeers q" for q x
    using removePeer_fields(4)
    by (cases x) (auto simp: addPeer_def spawn_peer_def addDiscoveredPeers_spec spawn_all_def
        runHealthChecks_def remove_all_maxPeers)
  then have "pm_maxPeers ?pm = pm_maxPeers pm"
    by (induction xs arbitrary: pm) (simp_all add: Let_def case_prod_beta)
  moreover have "manager_inv ?pm" by (rule peer_registry.run_inv [OF inv])
  moreover have "map fst (rg_entries (registry_abs ?pm)) = map fst (pm_peers ?pm)"
    by (simp add: registry_abs_def case_prod_beta comp_def)
  ultimately show ?thesis
    unfolding abs [symmetric] using peer_registry.run_results [OF inv, of xs]
    by (auto simp: manager_inv_def registry_ok_def)
qed

lemma registry_refines_list_witness:
  "fst (run_ops registry_exec (demo_client 3) [RegAdd False ''p'', RegAdd False ''p'', RegRemove ''p'', RegCount]) =
     [RegError None, RegError (Some ErrPeerAlreadyExists), RegError None, RegNumber 0]"
proof -
  have "registry_abs (demo_client 3) = \<lparr>rg_entries = [], rg_capacity = 2\<rparr>"
    by (simp add: registry_abs_def demo_simps)
  with registry_refines_list [OF demo_client_reach [of 3], of "[RegAdd False ''p'', RegAdd False ''p'', RegRemove ''p'', RegCount]"]
  show ?thesis by (simp add: registry_add_def)
qed

text \<open>The last step of a loop that evicts its own peer.\<close>

lemma own_eviction:
  assumes "manager_inv q" "i < length (pm_objs q)" "po_pc (pm_objs q ! i) = L_Evict"
    and "mp_address (pm_objs q ! i) = addr"
  shows "\<exists>pm'. client_run q [ALoop i True] = Next pm' \<and> po_pc (pm_objs pm' ! i) = L_Exited \<and>
      pm_peers pm' = AList.delete addr (pm_peers q)"
proof -
  have "0 < pm_wg q" using assms live_pos [OF assms(2)] by (simp add: manager_inv_def)
  then obtain pm' where pm': "loop_exit i (evictPeer i q) = Next pm'"
    by (auto simp: loop_exit_def evictPeer_def)
  then have "pm_peers pm' = AList.delete addr (pm_peers q)"
    using assms by (auto simp: loop_exit_def goto_def evictPeer_def split: if_splits)
  with pm' exit_pc [OF pm'] assms show ?thesis
    by (simp add: loop_step_def enabled_if_def silent_def) (simp add: evictPeer_def)
qed

text \<open>C14. The health check only anticipates. In every reachable state a registered peer at the failure
  threshold is one whose own loop is about to evict it: it stands at the test of the counter or at
  the eviction, at most two statements away from removing the entry and ending.\<close>

theorem unhealthy_evicts_itself:
  assumes "reach pm" and "map_of (pm_peers pm) addr = Some i" and "unhealthy pm i"
  shows "po_pc (pm_objs pm ! i) \<in> {L_CheckFailure, L_Evict} \<and>
     (\<exists>as pm'. length as \<le> 2 \<and> client_run pm as = Next pm' \<and> list_all (loop_of i) as \<and>
        po_pc (pm_objs pm' ! i) = L_Exited \<and> pm_peers pm' = AList.delete addr (pm_peers pm))"
proof -
  have inv: "manager_inv pm" by (rule reach_inv [OF assms(1)])
  have i: "i < length (pm_objs pm)" "mp_address (pm_objs pm ! i) = addr"
    using inv map_of_SomeD [OF assms(2)] by (auto simp: manager_inv_def registry_ok_def)
  have ob: "obj_ok (pm_maxFailureCount pm) (length (pm_conns pm)) (pm_objs pm ! i)"
    by (rule inv_obj [OF inv i(1)])
  have "po_pc (pm_objs pm ! i) \<noteq> L_Exited"
    using reach_ended_below [OF assms(1)] map_of_SomeD [OF assms(2)] assms(3)
    by (auto simp: ended_below_def unhealthy_def)
  then have pc: "po_pc (pm_objs pm ! i) \<in> {L_CheckFailure, L_Evict}"
    using ob assms(3) by (auto simp: obj_ok_def counter_bound_def unhealthy_def)
  show ?thesis
  proof (cases "po_pc (pm_objs pm ! i) = L_Evict")
    case True
    have "length [ALoop i True] \<le> 2" "list_all (loop_of i) [ALoop i True]" by simp_all
    with own_eviction [OF inv i(1) True i(2)] pc show ?thesis by blast
  next
    case False
    with pc have check: "po_pc (pm_objs pm ! i) = L_CheckFailure" by simp
    let ?q = "goto i L_Evict pm"
    have st: "loop_step i True pm = Next ?q"
      using check assms(3) by (simp add: loop_step_def unhealthy_def)
    have "client_exec pm (ALoop i True) = Next (None, ?q)" using st i(1) by simp
    from client_exec_inv [OF inv this] have q: "manager_inv ?q" .
    have qf: "i < length (pm_objs ?q)" "po_pc (pm_objs ?q ! i) = L_Evict" "mp_address (pm_objs ?q ! i) = addr"
      "pm_peers ?q = pm_peers pm"
      using i by (simp_all add: goto_def)
    from own_eviction [OF q qf(1-3)] obtain pm' where "client_run ?q [ALoop i True] = Next pm'"
      "po_pc (pm_objs pm' ! i) = L_Exited" "pm_peers pm' = AList.delete addr (pm_peers pm)"
      using qf(4) by auto
    then have "client_run pm [ALoop i True, ALoop i True] = Next pm' \<and> po_pc (pm_objs pm' ! i) = L_Exited \<and>
        pm_peers pm' = AList.delete addr (pm_peers pm)"
      by (simp only: run_loop_Cons [OF st i(1)] simp_thms)
    moreover have "length [ALoop i True, ALoop i True] \<le> 2" "list_all (loop_of i) [ALoop i True, ALoop i True]"
      by simp_all
    ultimately show ?thesis using pc by blast
  qed
qed

lemma unhealthy_evicts_itself_witness:
  "po_pc (pm_objs (state_of (client_run (demo_client 1)
     (AAddPeer False ''p'' # map (ALoop 0) [True, True, False, True, True]))) ! 0) \<in> {L_CheckFailure, L_Evict}"
proof -
  let ?pm = "state_of (client_run (demo_client 1) (AAddPeer False ''p'' # map (ALoop 0) [True, True, False, True, True]))"
  have r: "reach ?pm" by (rule demo_run_reach) (simp, code_simp)
  have "map_of (pm_peers ?pm) ''p'' = Some 0" "unhealthy ?pm 0" by code_simp+
  from unhealthy_evicts_itself [OF r this] show ?thesis by blast
qed

text \<open>C28. A cancelled context leaves a ghost behind. When the loop of a registered peer has ended, as it
  does when the context given to \<open>AddPeer\<close> ends, and no other loop runs for that address, the entry
  stays for good: no goroutine serves it, no health check removes it, \<open>AddPeer\<close> refuses the address,
  and it takes up a place, until somebody calls \<open>RemovePeer\<close>.\<close>

theorem ghost_entry_stays:
  assumes "reach pm" and "map_of (pm_peers pm) addr = Some i"
    and "list_all (\<lambda>ob. mp_address ob = addr \<longrightarrow> po_pc ob = L_Exited) (pm_objs pm)"
    and "client_run pm as = Next pm'" and "ARemovePeer addr \<notin> set as"
  shows "map_of (pm_peers pm') addr = Some i \<and> po_pc (pm_objs pm' ! i) = L_Exited \<and>
     (\<forall>ok. loop_step i ok pm' = Blocked) \<and> (\<forall>c. addPeer c addr pm' = (Some ErrPeerAlreadyExists, pm'))"
proof -
  have "orphaned addr i pm" using assms(2,3) by (simp add: orphaned_def list_all_length)
  from run_orphaned [OF assms(1) this assms(4,5)] have o': "orphaned addr i pm'" .
  have "manager_inv pm'" by (rule reach_inv [OF reach_run [OF assms(1,4)]])
  with o' have "i < length (pm_objs pm')" "mp_address (pm_objs pm' ! i) = addr"
    by (auto simp: orphaned_def manager_inv_def registry_ok_def dest!: map_of_SomeD)
  with o' show ?thesis by (simp add: orphaned_def loop_step_def addPeer_def)
qed

text \<open>The context given to \<open>AddPeer\<close> ends while the peer is being dialled.\<close>

definition ghost_run :: "action list" where
  "ghost_run = [AStart, AAddPeer False ''p'', ALoop 0 True, ALoop 0 True, ACtxDone 0] @ map (ALoop 0) [True, True, True, True, True, True]"

lemma ghost_entry_stays_witness:
  "map_of (pm_peers (state_of (client_run (demo_client 3) (ghost_run @ [AHealthTick])))) ''p'' = Some 0"
proof -
  let ?pm = "state_of (client_run (demo_client 3) ghost_run)"
  let ?pm' = "state_of (client_run (demo_client 3) (ghost_run @ [AHealthTick]))"
  have r: "reach ?pm" by (rule demo_run_reach) (simp, code_simp)
  have m: "map_of (pm_peers ?pm) ''p'' = Some 0" by code_simp
  have l: "list_all (\<lambda>ob. mp_address ob = ''p'' \<longrightarrow> po_pc ob = L_Exited) (pm_objs ?pm)" by code_simp
  have run: "client_run ?pm [AHealthTick] = Next ?pm'" by code_simp
  from ghost_entry_stays [OF r m l run] show ?thesis by simp
qed

text \<open>C13. A \<open>Stop\<close> that waits is waiting for connections. When it has cancelled the peers, and neither a
  connection loop nor the health check can move, then either \<open>Stop\<close> can return nil or some loop sits
  in \<open>WaitForDisconnect\<close> on a connection that is still up; nothing else holds it.\<close>

theorem stop_waits_for_connections:
  assumes "reach pm" and "pm_stop pm = StopWaiting"
    and "\<And>i ok. client_exec pm (ALoop i ok) = Blocked" and "client_exec pm AHealthExit = Blocked"
  shows "(\<exists>pm'. client_exec pm AStopGraceful = Next (None, pm')) \<or>
     (\<exists>i < length (pm_objs pm). \<exists>c. po_pc (pm_objs pm ! i) = L_Block \<and> mp_peer (pm_objs pm ! i) = Some c \<and> pm_conns pm ! c)"
proof (rule disjCI)
  assume none: "\<not> (\<exists>i < length (pm_objs pm). \<exists>c. po_pc (pm_objs pm ! i) = L_Block \<and>
      mp_peer (pm_objs pm ! i) = Some c \<and> pm_conns pm ! c)"
  have inv: "manager_inv pm" by (rule reach_inv [OF assms(1)])
  then have cl: "pm_done pm" using assms(2) by (auto simp: manager_inv_def)
  have "po_pc (pm_objs pm ! i) = L_Exited" if i: "i < length (pm_objs pm)" for i
  proof -
    have "loop_step i True pm = Blocked"
      using assms(3) [of i True] i by (simp add: enabled_if_def silent_def split: outcome.splits)
    with loop_step_blocked [OF inv i, of True] cl none i show ?thesis by (auto simp: told_to_end_def)
  qed
  then have live0: "live (pm_objs pm) = 0" by (auto simp: live_def filter_empty_conv in_set_conv_nth)
  have "pm_health pm = 0"
  proof (rule ccontr)
    assume "pm_health pm \<noteq> 0"
    then have "0 < pm_health pm" using inv by (auto simp: manager_inv_def)
    with health_exit_safe [OF inv] assms(4) cl inv live0 show False
      by (auto simp: enabled_if_def silent_def health_exit_def manager_inv_def split: if_splits)
  qed
  with live0 have "pm_wg pm = 0" using inv by (simp add: manager_inv_def)
  then show "\<exists>pm'. client_exec pm AStopGraceful = Next (None, pm')"
    using assms(2) by (simp add: enabled_if_def client_Stop_graceful_def)
qed

lemma stop_waits_for_connections_witness:
  "\<exists>c. mp_peer (pm_objs (state_of (client_run (demo_client 3) overtaken_dial)) ! 0) = Some c"
proof -
  let ?pm = "state_of (client_run (demo_client 3) overtaken_dial)"
  have r: "reach ?pm" by (rule demo_run_reach) (simp, code_simp)
  have f: "pm_stop ?pm = StopWaiting" "client_exec ?pm AHealthExit = Blocked" "client_exec ?pm AStopGraceful = Blocked"
    by code_simp+
  have "length (pm_objs ?pm) = 1" "po_pc (pm_objs ?pm ! 0) = L_Block" "mp_peer (pm_objs ?pm ! 0) = Some 0" "pm_conns ?pm ! 0"
    by code_simp+
  then have b: "client_exec ?pm (ALoop i ok) = Blocked" for i ok
    by (auto simp: enabled_if_def silent_def loop_step_def less_Suc0)
  have "\<nexists>pm'. client_exec ?pm AStopGraceful = Next (None, pm')" unfolding f(3) by simp
  with stop_waits_for_connections [OF r f(1) b f(2)] \<open>length (pm_objs ?pm) = 1\<close> show ?thesis
    by (auto simp: less_Suc0 simp del: client_exec.simps)
qed

end
