(* ===== verification/Lock_Order.thy ===== *)
theory Lock_Order
  imports Prelude
begin

text \<open>
  Goroutines over \<open>sync.RWMutex\<close> locks and one \<open>sync.WaitGroup\<close>. A goroutine is the list of lock
  operations it still performs and the locks it holds. \<open>Lock\<close> takes two steps, as in the standard
  library: it first claims the mutex, which keeps new readers and writers out, and then waits for
  the readers to leave. The locale \<open>lock_discipline\<close> is the contract of operations that follow a
  hierarchy of locks; goroutines that run such operations never deadlock.
\<close>

section \<open>Goroutines and locks\<close>

datatype 'l instr = Lock 'l | Unlock 'l | RLock 'l | RUnlock 'l | WgWait | WgDone

record 'l goroutine =
  gr_script :: "'l instr list"
  gr_writes :: "'l list"
  gr_reads :: "'l list"
  gr_claimed :: bool
  gr_counted :: bool

type_synonym 'l system = "'l goroutine list"

text \<open>\<open>gr_claimed\<close>: the goroutine's pending \<open>Lock\<close> has claimed its mutex and waits for readers.\<close>

definition claims :: "'l \<Rightarrow> 'l goroutine \<Rightarrow> bool" where
  "claims l g \<longleftrightarrow> l \<in> set (gr_writes g) \<or>
     gr_claimed g \<and> (case gr_script g of Lock m # is \<Rightarrow> m = l | _ \<Rightarrow> False)"

definition reads :: "'l \<Rightarrow> 'l goroutine \<Rightarrow> bool" where
  "reads l g \<longleftrightarrow> l \<in> set (gr_reads g)"

text \<open>One step of a goroutine \<open>g\<close> among all goroutines \<open>S\<close>, itself included.\<close>

definition gr_step :: "'l system \<Rightarrow> 'l goroutine \<Rightarrow> 'l goroutine outcome" where
  "gr_step S g =
     (case gr_script g of
        [] \<Rightarrow> Blocked
      | Lock l # is \<Rightarrow>
          if \<not> gr_claimed g then
            (if list_ex (claims l) S then Blocked else Next (g\<lparr>gr_claimed := True\<rparr>))
          else if list_ex (reads l) S then Blocked
          else Next (g\<lparr>gr_script := is, gr_writes := l # gr_writes g, gr_claimed := False\<rparr>)
      | Unlock l # is \<Rightarrow>
          if l \<in> set (gr_writes g) then Next (g\<lparr>gr_script := is, gr_writes := remove1 l (gr_writes g)\<rparr>)
          else Panic ''sync: Unlock of unlocked RWMutex''
      | RLock l # is \<Rightarrow>
          if list_ex (claims l) S then Blocked
          else Next (g\<lparr>gr_script := is, gr_reads := l # gr_reads g\<rparr>)
      | RUnlock l # is \<Rightarrow>
          if l \<in> set (gr_reads g) then Next (g\<lparr>gr_script := is, gr_reads := remove1 l (gr_reads g)\<rparr>)
          else Panic ''sync: RUnlock of unlocked RWMutex''
      | WgWait # is \<Rightarrow> if list_ex gr_counted S then Blocked else Next (g\<lparr>gr_script := is\<rparr>)
      | WgDone # is \<Rightarrow>
          if gr_counted g then Next (g\<lparr>gr_script := is, gr_counted := False\<rparr>)
          else Panic ''sync: negative WaitGroup counter'')"

definition lock_step :: "'l system \<Rightarrow> nat \<Rightarrow> 'l system outcome" where
  "lock_step S t =
     (if t < length S then
        (case gr_step S (S ! t) of Next g \<Rightarrow> Next (S[t := g]) | Blocked \<Rightarrow> Blocked | Panic s \<Rightarrow> Panic s)
      else Blocked)"

text \<open>A schedule lists the goroutines that step, in order.\<close>

fun lock_run :: "'l system \<Rightarrow> nat list \<Rightarrow> 'l system outcome" where
  "lock_run S [] = Next S"
| "lock_run S (t # ts) =
     (case lock_step S t of Next S' \<Rightarrow> lock_run S' ts | Blocked \<Rightarrow> Blocked | Panic s \<Rightarrow> Panic s)"

definition gr_finished :: "'l goroutine \<Rightarrow> bool" where
  "gr_finished g \<longleftrightarrow> gr_script g = []"

text \<open>Nobody can step and somebody has not finished.\<close>

definition deadlocked :: "'l system \<Rightarrow> bool" where
  "deadlocked S \<longleftrightarrow> \<not> list_all gr_finished S \<and> list_all (\<lambda>t. lock_step S t = Blocked) [0..<length S]"

section \<open>The discipline of one goroutine\<close>

type_synonym 'l held = "'l list \<times> 'l list \<times> bool"

text \<open>
  Every lock that is taken ranks above those already held; the wait group has a rank of its own,
  which a counted goroutine holds until \<open>WgDone\<close>. \<open>held_after\<close> follows a script and gives what is
  held at its end, or \<open>None\<close> when it breaks the rule.
\<close>

fun held_after :: "('l \<Rightarrow> nat) \<Rightarrow> nat \<Rightarrow> 'l held \<Rightarrow> 'l instr list \<Rightarrow> 'l held option" where
  "held_after rank wg h [] = Some h"
| "held_after rank wg (W, R, c) (i # is) =
     (case i of
        Lock l \<Rightarrow>
          if list_all (\<lambda>m. rank m < rank l) (W @ R) \<and> (c \<longrightarrow> wg < rank l)
          then held_after rank wg (l # W, R, c) is else None
      | RLock l \<Rightarrow>
          if list_all (\<lambda>m. rank m < rank l) (W @ R) \<and> (c \<longrightarrow> wg < rank l)
          then held_after rank wg (W, l # R, c) is else None
      | Unlock l \<Rightarrow> if l \<in> set W then held_after rank wg (remove1 l W, R, c) is else None
      | RUnlock l \<Rightarrow> if l \<in> set R then held_after rank wg (W, remove1 l R, c) is else None
      | WgWait \<Rightarrow> if list_all (\<lambda>m. rank m < wg) (W @ R) \<and> \<not> c then held_after rank wg (W, R, c) is else None
      | WgDone \<Rightarrow> if c then held_after rank wg (W, R, False) is else None)"

lemma held_after_append:
  "held_after rank wg h (is @ js) =
   (case held_after rank wg h is of None \<Rightarrow> None | Some h' \<Rightarrow> held_after rank wg h' js)"
proof (induction "is" arbitrary: h)
  case (Cons i "is")
  obtain W R c where "h = (W, R, c)" by (cases h)
  with Cons show ?case by (cases i) auto
qed simp

text \<open>A script that keeps what is held can be repeated and put in sequence.\<close>

lemma held_after_concat:
  "list_all (\<lambda>is. held_after rank wg h is = Some h) iss \<Longrightarrow> held_after rank wg h (concat iss) = Some h"
  by (induction iss) (simp_all add: held_after_append)

text \<open>A goroutine is disciplined when its script is, and ends with nothing held.\<close>

definition disciplined :: "('l \<Rightarrow> nat) \<Rightarrow> nat \<Rightarrow> 'l goroutine \<Rightarrow> bool" where
  "disciplined rank wg g \<longleftrightarrow>
     held_after rank wg (gr_writes g, gr_reads g, gr_counted g) (gr_script g) = Some ([], [], False) \<and>
     (gr_claimed g \<longrightarrow> (\<exists>l is. gr_script g = Lock l # is))"

text \<open>What a goroutine waits for next.\<close>

definition wants :: "('l \<Rightarrow> nat) \<Rightarrow> nat \<Rightarrow> 'l goroutine \<Rightarrow> nat" where
  "wants rank wg g =
     (case gr_script g of Lock l # is \<Rightarrow> rank l | RLock l # is \<Rightarrow> rank l | WgWait # is \<Rightarrow> wg | _ \<Rightarrow> 0)"

section \<open>Progress\<close>

definition all_disciplined :: "('l \<Rightarrow> nat) \<Rightarrow> nat \<Rightarrow> 'l system \<Rightarrow> bool" where
  "all_disciplined rank wg S \<longleftrightarrow> list_all (disciplined rank wg) S"

lemma disciplinedD: "all_disciplined rank wg S \<Longrightarrow> g \<in> set S \<Longrightarrow> disciplined rank wg g"
  by (simp add: all_disciplined_def list_all_iff)

text \<open>A goroutine that holds something has not finished.\<close>

lemma holder_unfinished:
  assumes "disciplined rank wg g" and "l \<in> set (gr_writes g) \<or> l \<in> set (gr_reads g) \<or> gr_counted g"
  shows "gr_script g \<noteq> []"
  using assms by (auto simp: disciplined_def)

text \<open>One that waits wants more than all it holds.\<close>

lemma waiting_wants_more:
  assumes "disciplined rank wg g" and "gr_step S g = Blocked"
  shows "l \<in> set (gr_writes g) \<union> set (gr_reads g) \<Longrightarrow> rank l < wants rank wg g"
    and "gr_counted g \<Longrightarrow> wg < wants rank wg g"
  using holder_unfinished [OF assms(1), of l] assms
  by (auto simp: disciplined_def gr_step_def wants_def list_all_iff split: list.splits instr.splits if_splits)

text \<open>If it waits, then for one that wants more, or for one that waits for a reader that does.\<close>

definition stuck :: "'l system \<Rightarrow> 'l goroutine \<Rightarrow> bool" where
  "stuck S g \<longleftrightarrow> gr_script g \<noteq> [] \<and> gr_step S g = Blocked"

lemma blocked_by:
  assumes "stuck S g"
  shows "\<exists>h \<in> set S. (\<exists>l. rank l = wants rank wg g \<and> (reads l h \<or> claims l h)) \<or>
     gr_counted h \<and> wants rank wg g = wg"
  using assms
  by (auto simp: stuck_def gr_step_def wants_def list_ex_iff split: list.splits instr.splits if_splits)

lemma claims_cases:
  assumes "claims l g"
  shows "l \<in> set (gr_writes g) \<or> gr_claimed g \<and> (\<exists>is. gr_script g = Lock l # is)"
  using assms by (auto simp: claims_def split: list.splits instr.splits)

lemma stuck_claimed_read:
  assumes "stuck S g" and "gr_claimed g" and "gr_script g = Lock l # is"
  shows "\<exists>h \<in> set S. reads l h"
  using assms by (auto simp: stuck_def gr_step_def list_ex_iff split: if_splits)

lemma stuck_wants_less:
  assumes disc: "all_disciplined rank wg S" and all: "\<forall>g \<in> set S. gr_script g \<noteq> [] \<longrightarrow> stuck S g"
    and g: "stuck S g"
  shows "\<exists>h \<in> set S. stuck S h \<and> wants rank wg g < wants rank wg h"
proof -
  have more: "stuck S h \<and> rank l < wants rank wg h"
    if "h \<in> set S" "l \<in> set (gr_writes h) \<union> set (gr_reads h)" for h l
    using that holder_unfinished [OF disciplinedD [OF disc that(1)], of l] all
      waiting_wants_more(1) [OF disciplinedD [OF disc that(1)], of S l]
    by (auto simp: stuck_def)
  obtain h where h: "h \<in> set S" and why:
    "(\<exists>l. rank l = wants rank wg g \<and> (reads l h \<or> claims l h)) \<or> gr_counted h \<and> wants rank wg g = wg"
    using blocked_by [OF g] by blast
  from why consider l where "rank l = wants rank wg g" "l \<in> set (gr_writes h) \<union> set (gr_reads h)"
    | l "is" where "rank l = wants rank wg g" "gr_claimed h" "gr_script h = Lock l # is"
    | "gr_counted h" "wants rank wg g = wg"
    by (auto simp: reads_def dest: claims_cases)
  then show ?thesis
  proof cases
    case 1
    with more [OF h] h show ?thesis by metis
  next
    case 2
    with all h obtain k where k: "k \<in> set S" "reads l k"
      using stuck_claimed_read [of S h l "is"] by auto
    with more [of k l] 2 show ?thesis by (auto simp: reads_def)
  next
    case 3
    then have "stuck S h" using holder_unfinished [OF disciplinedD [OF disc h]] all h by blast
    with waiting_wants_more(2) [OF disciplinedD [OF disc h], of S] 3 h show ?thesis
      by (auto simp: stuck_def)
  qed
qed

text \<open>So in a disciplined system somebody can always go on.\<close>

lemma not_all_stuck:
  assumes disc: "all_disciplined rank wg S" and all: "\<forall>g \<in> set S. gr_script g \<noteq> [] \<longrightarrow> stuck S g"
  shows "list_all gr_finished S"
proof (rule ccontr)
  assume "\<not> list_all gr_finished S"
  with all have ne: "{g \<in> set S. stuck S g} \<noteq> {}" by (auto simp: list_all_iff gr_finished_def)
  let ?m = "Max (wants rank wg ` {g \<in> set S. stuck S g})"
  have "?m \<in> wants rank wg ` {g \<in> set S. stuck S g}"
    using ne by (intro Max_in) auto
  then obtain g where g: "stuck S g" "wants rank wg g = ?m" by auto
  have "wants rank wg h \<le> wants rank wg g" if "h \<in> set S" "stuck S h" for h
    unfolding g(2) using that by (intro Max_ge) auto
  with stuck_wants_less [OF disc all] show False using g(1) by (meson leD)
qed

lemma disciplined_not_deadlocked:
  assumes "all_disciplined rank wg S"
  shows "\<not> deadlocked S"
proof
  assume dead: "deadlocked S"
  have "stuck S g" if g: "g \<in> set S" "gr_script g \<noteq> []" for g
  proof -
    obtain t where "t < length S" "g = S ! t" using g(1) by (auto simp: in_set_conv_nth)
    moreover from this have "lock_step S t = Blocked" using dead by (simp add: deadlocked_def list_all_iff)
    ultimately show ?thesis using g by (auto simp: lock_step_def stuck_def split: outcome.splits)
  qed
  then have "list_all gr_finished S" by (intro not_all_stuck [OF assms]) blast
  with dead show False by (simp add: deadlocked_def)
qed

section \<open>Runs\<close>

text \<open>A step keeps the discipline and never misuses a lock.\<close>

lemma gr_step_disciplined:
  assumes "disciplined rank wg g"
  shows "(\<forall>s. gr_step S g \<noteq> Panic s) \<and> (\<forall>g'. gr_step S g = Next g' \<longrightarrow> disciplined rank wg g')"
  using assms
  by (cases "gr_script g"; cases "hd (gr_script g)") (auto simp: gr_step_def disciplined_def split: if_splits)

lemma lock_step_disciplined:
  assumes "all_disciplined rank wg S"
  shows "(\<forall>s. lock_step S t \<noteq> Panic s) \<and> (\<forall>S'. lock_step S t = Next S' \<longrightarrow> all_disciplined rank wg S')"
proof (cases "t < length S")
  case True
  then have "disciplined rank wg (S ! t)" using assms by (auto intro: disciplinedD)
  from gr_step_disciplined [OF this, of S] assms True show ?thesis
    by (auto simp: lock_step_def all_disciplined_def list_all_length nth_list_update split: outcome.splits)
qed (simp add: lock_step_def)

text \<open>Every step uses up part of a script: a \<open>Lock\<close> counts for two.\<close>

definition gr_work :: "'l goroutine \<Rightarrow> nat" where
  "gr_work g = 2 * length (gr_script g) - (if gr_claimed g then 1 else 0)"

definition lock_work :: "'l system \<Rightarrow> nat" where
  "lock_work S = sum_list (map gr_work S)"

lemma gr_step_work: "disciplined rank wg g \<Longrightarrow> gr_step S g = Next g' \<Longrightarrow> gr_work g' < gr_work g"
  by (auto simp: gr_step_def gr_work_def disciplined_def split: list.splits instr.splits if_splits)

lemma lock_step_work:
  assumes "all_disciplined rank wg S" and "lock_step S t = Next S'"
  shows "lock_work S' < lock_work S"
proof -
  obtain g where t: "t < length S" and g: "gr_step S (S ! t) = Next g" and S': "S' = S[t := g]"
    using assms(2) by (auto simp: lock_step_def split: if_splits outcome.splits)
  have "gr_work g < gr_work (S ! t)"
    using disciplinedD [OF assms(1) nth_mem [OF t]] g by (rule gr_step_work)
  moreover have "gr_work (S ! t) \<le> lock_work S"
    using t elem_le_sum_list [of t "map gr_work S"] by (simp add: lock_work_def)
  ultimately show ?thesis
    using t by (simp add: lock_work_def S' map_update sum_list_update)
qed

text \<open>A run of a disciplined system: it does not panic, is bounded, and never ends in a deadlock.\<close>

lemma lock_run_disciplined:
  assumes "all_disciplined rank wg S"
  shows "(\<forall>s. lock_run S ts \<noteq> Panic s) \<and>
     (\<forall>S'. lock_run S ts = Next S' \<longrightarrow> all_disciplined rank wg S' \<and> length ts + lock_work S' \<le> lock_work S)"
  using assms
proof (induction ts arbitrary: S)
  case (Cons t ts)
  note step = lock_step_disciplined [OF Cons.prems, of t]
  show ?case
  proof (cases "lock_step S t")
    case (Next S1)
    then have "all_disciplined rank wg S1" using step by blast
    from Cons.IH [OF this] lock_step_work [OF Cons.prems Next] Next show ?thesis by fastforce
  qed (use step in simp_all)
qed simp

section \<open>Mutual exclusion\<close>

text \<open>A lock that is claimed or held for writing has one claimant, and no reader once it is held.\<close>

definition exclusive :: "'l system \<Rightarrow> bool" where
  "exclusive S \<longleftrightarrow>
     (\<forall>t u l. t < length S \<longrightarrow> u < length S \<longrightarrow> t \<noteq> u \<longrightarrow> claims l (S ! t) \<longrightarrow> \<not> claims l (S ! u)) \<and>
     (\<forall>t u l. t < length S \<longrightarrow> u < length S \<longrightarrow> l \<in> set (gr_writes (S ! t)) \<longrightarrow> \<not> reads l (S ! u))"

text \<open>
  What one step changes of the claims: only a step that found a lock unclaimed claims it, only one
  that found it without readers takes it, and only one that found it unclaimed reads it.
\<close>

lemma gr_step_claims:
  assumes "disciplined rank wg g" and "gr_step S g = Next g'"
  shows "claims l g' \<Longrightarrow> claims l g \<or> \<not> list_ex (claims l) S"
    and "l \<in> set (gr_writes g') \<Longrightarrow> l \<in> set (gr_writes g) \<or> claims l g \<and> \<not> list_ex (reads l) S"
    and "reads l g' \<Longrightarrow> reads l g \<or> \<not> list_ex (claims l) S"
  using assms
  by (auto simp: gr_step_def claims_def reads_def disciplined_def dest: notin_set_remove1 set_remove1_subset [THEN subsetD]
      split: list.splits instr.splits if_splits)

lemma exclusive_claims:
  "exclusive S \<Longrightarrow> t < length S \<Longrightarrow> u < length S \<Longrightarrow> t \<noteq> u \<Longrightarrow> claims l (S ! t) \<Longrightarrow> \<not> claims l (S ! u)"
  by (simp add: exclusive_def)

lemma exclusive_reads:
  "exclusive S \<Longrightarrow> t < length S \<Longrightarrow> u < length S \<Longrightarrow> l \<in> set (gr_writes (S ! t)) \<Longrightarrow> \<not> reads l (S ! u)"
  by (simp add: exclusive_def)

lemma exclusive_update:
  assumes ex: "exclusive S" and t: "t < length S"
    and 1: "\<And>u l. u < length S \<Longrightarrow> u \<noteq> t \<Longrightarrow> claims l (S ! u) \<Longrightarrow> \<not> claims l g"
    and 2: "\<And>u l. u < length S \<Longrightarrow> u \<noteq> t \<Longrightarrow> l \<in> set (gr_writes g) \<Longrightarrow> \<not> reads l (S ! u)"
    and 3: "\<And>u l. u < length S \<Longrightarrow> u \<noteq> t \<Longrightarrow> l \<in> set (gr_writes (S ! u)) \<Longrightarrow> \<not> reads l g"
    and 4: "\<And>l. l \<in> set (gr_writes g) \<Longrightarrow> \<not> reads l g"
  shows "exclusive (S[t := g])"
proof -
  have "\<not> claims l (S[t := g] ! b)"
    if "a < length S" "b < length S" "a \<noteq> b" "claims l (S[t := g] ! a)" for a b l
    using that exclusive_claims [OF ex that(1-3), of l] 1 [of a l] 1 [of b l]
    by (cases "a = t"; cases "b = t"; auto)
  moreover have "\<not> reads l (S[t := g] ! b)"
    if "a < length S" "b < length S" "l \<in> set (gr_writes (S[t := g] ! a))" for a b l
    using that exclusive_reads [OF ex that(1,2), of l] 2 [of b l] 3 [of a l] 4 [of l]
    by (cases "a = t"; cases "b = t"; auto)
  ultimately show ?thesis by (simp add: exclusive_def)
qed

lemma lock_step_exclusive:
  assumes "all_disciplined rank wg S" and ex: "exclusive S" and "lock_step S t = Next S'"
  shows "exclusive S'"
proof -
  obtain g where t: "t < length S" and g: "gr_step S (S ! t) = Next g" and S': "S' = S[t := g]"
    using assms(3) by (auto simp: lock_step_def split: if_splits outcome.splits)
  note c = gr_step_claims [OF disciplinedD [OF assms(1) nth_mem [OF t]] g]
  have w: "claims l h" if "l \<in> set (gr_writes h)" for l and h :: "'a goroutine"
    using that by (simp add: claims_def)
  have nex: "\<not> P (S ! u)" if "\<not> list_ex P S" "u < length S" for P u
    using that by (auto simp: list_ex_iff)
  have 1: "\<not> claims l g" if "u < length S" "u \<noteq> t" "claims l (S ! u)" for u l
    using that c(1) [of l] nex [of "claims l" u] exclusive_claims [OF ex that(1) t that(2), of l] by blast
  have 2: "\<not> reads l (S ! u)" if "u < length S" "u \<noteq> t" "l \<in> set (gr_writes g)" for u l
    using that c(2) [of l] nex [of "reads l" u] exclusive_reads [OF ex t that(1), of l] by blast
  have 3: "\<not> reads l g" if "u < length S" "u \<noteq> t" "l \<in> set (gr_writes (S ! u))" for u l
    using that c(3) [of l] nex [of "claims l" u] w exclusive_reads [OF ex that(1) t, of l] by blast
  have 4: "\<not> reads l g" if "l \<in> set (gr_writes g)" for l
  proof -
    have "l \<in> set (gr_writes (S ! t)) \<Longrightarrow> \<not> reads l (S ! t)"
      by (rule exclusive_reads [OF ex t t])
    then show ?thesis
      using c(2) [OF that] c(3) [of l] nex [of "claims l" t] nex [of "reads l" t] w t by blast
  qed
  show ?thesis
    unfolding S' by (rule exclusive_update [OF ex t 1 2 3 4])
qed

lemma lock_run_exclusive:
  assumes "all_disciplined rank wg S" and "exclusive S" and "lock_run S ts = Next S'"
  shows "exclusive S'"
  using assms
proof (induction ts arbitrary: S)
  case (Cons t ts)
  then obtain S1 where S1: "lock_step S t = Next S1" "lock_run S1 ts = Next S'"
    by (auto split: outcome.splits)
  with Cons.prems lock_step_disciplined [OF Cons.prems(1), of t] lock_step_exclusive [OF Cons.prems(1,2) S1(1)]
  show ?case by (intro Cons.IH [OF _ _ S1(2)]) auto
qed simp

section \<open>Operations that share the discipline\<close>

text \<open>
  A program runs operations one after the other. A goroutine counted by the wait group runs
  \<open>WgDone\<close> at its end. The contract of an operation: it follows the hierarchy from where nothing
  is held (the count apart), and releases all it took.
\<close>

datatype 'op program = Plain "'op list" | Counted "'op list"

definition launch :: "('op \<Rightarrow> 'l instr list) \<Rightarrow> 'op program \<Rightarrow> 'l goroutine" where
  "launch ops p =
     (case p of
        Plain xs \<Rightarrow> \<lparr>gr_script = concat (map ops xs), gr_writes = [], gr_reads = [], gr_claimed = False, gr_counted = False\<rparr>
      | Counted xs \<Rightarrow>
          \<lparr>gr_script = concat (map ops xs) @ [WgDone], gr_writes = [], gr_reads = [], gr_claimed = False,
           gr_counted = True\<rparr>)"

definition program_ok :: "(bool \<Rightarrow> 'op \<Rightarrow> bool) \<Rightarrow> 'op program \<Rightarrow> bool" where
  "program_ok allowed p = (case p of Plain xs \<Rightarrow> list_all (allowed False) xs | Counted xs \<Rightarrow> list_all (allowed True) xs)"

locale lock_discipline =
  fixes rank :: "'l \<Rightarrow> nat"
    and wg :: nat
    and ops :: "'op \<Rightarrow> 'l instr list"
    and allowed :: "bool \<Rightarrow> 'op \<Rightarrow> bool"
  assumes ops_ordered: "allowed c x \<Longrightarrow> held_after rank wg ([], [], c) (ops x) = Some ([], [], c)"
begin

lemma launch_disciplined:
  assumes "program_ok allowed p"
  shows "disciplined rank wg (launch ops p)"
proof (cases p)
  case (Plain xs)
  have "held_after rank wg ([], [], False) (concat (map ops xs)) = Some ([], [], False)"
    using assms Plain by (intro held_after_concat) (auto simp: program_ok_def list_all_iff ops_ordered)
  with Plain show ?thesis by (simp add: disciplined_def launch_def)
next
  case (Counted xs)
  have "held_after rank wg ([], [], True) (concat (map ops xs)) = Some ([], [], True)"
    using assms Counted by (intro held_after_concat) (auto simp: program_ok_def list_all_iff ops_ordered)
  with Counted show ?thesis by (simp add: disciplined_def launch_def held_after_append)
qed

lemma launch_all_disciplined: "list_all (program_ok allowed) ps \<Longrightarrow> all_disciplined rank wg (map (launch ops) ps)"
  by (simp add: all_disciplined_def list_all_iff launch_disciplined)

lemma launch_exclusive: "exclusive (map (launch ops) ps)"
proof -
  have "\<not> claims l (launch ops p)" for l p
    by (cases p) (simp_all add: claims_def launch_def)
  moreover have "gr_writes (launch ops p) = []" for p
    by (cases p) (simp_all add: launch_def)
  ultimately show ?thesis by (simp add: exclusive_def)
qed

theorem programs_progress:
  assumes "list_all (program_ok allowed) ps"
  shows "(\<forall>s. lock_run (map (launch ops) ps) ts \<noteq> Panic s) \<and>
     (\<forall>S. lock_run (map (launch ops) ps) ts = Next S \<longrightarrow>
        \<not> deadlocked S \<and> exclusive S \<and> length ts \<le> lock_work (map (launch ops) ps))"
  using lock_run_disciplined [OF launch_all_disciplined [OF assms], of ts]
    lock_run_exclusive [OF launch_all_disciplined [OF assms] launch_exclusive]
    disciplined_not_deadlocked
  by fastforce

end

end
