(* ===== verification/Client_Locks.thy ===== *)
theory Client_Locks
  imports Lock_Order Btc_Client
begin

text \<open>
  The locks that the operations of \<open>pkg/btcclient\<close>, \<open>indexer\<close> and \<open>examples/headerindexer\<close> take, in
  the order of the source, deferred unlocks at the end. An operation that depends on the state
  takes the manager it finds. Callbacks are given by the locks they take in turn. The hierarchy is
  the node's mutex, the client's, the wait group, the registry's, a peer's, the application's.
\<close>

section \<open>Locks and callbacks\<close>

text \<open>
  \<open>Indexer.mu\<close>, \<open>BtcClient.mu\<close>, \<open>PeerManager.peersMu\<close>, the \<open>mu\<close> of managed peer \<open>i\<close>, and a mutex of
  the application, such as \<open>headerIndexer.mu\<close>.
\<close>

datatype node_lock = IdxMu | BcMu | PeersMu | MpMu nat | AppMu

type_synonym lock_script = "node_lock instr list"

record callbacks =
  cb_OnHeaders :: lock_script
  cb_OnInv :: lock_script
  cb_OnBlock :: lock_script
  cb_OnTx :: lock_script
  cb_OnAddr :: lock_script
  cb_OnPeerConnected :: lock_script
  cb_OnPeerDisconnected :: lock_script

definition no_callbacks :: callbacks where
  "no_callbacks =
     \<lparr>cb_OnHeaders = [], cb_OnInv = [], cb_OnBlock = [], cb_OnTx = [], cb_OnAddr = [],
      cb_OnPeerConnected = [], cb_OnPeerDisconnected = []\<rparr>"

section \<open>Managed peers and the manager\<close>

text \<open>The accessors \<open>Status\<close>, \<open>FailureCount\<close> and \<open>Peer\<close>, and the mutators.\<close>

definition mp_read_locks :: "nat \<Rightarrow> lock_script" where
  "mp_read_locks i = [RLock (MpMu i), RUnlock (MpMu i)]"

definition mp_write_locks :: "nat \<Rightarrow> lock_script" where
  "mp_write_locks i = [Lock (MpMu i), Unlock (MpMu i)]"

definition removePeer_locks :: "callbacks \<Rightarrow> string \<Rightarrow> manager \<Rightarrow> lock_script" where
  "removePeer_locks cbs address pm =
     (case map_of (pm_peers pm) address of
        None \<Rightarrow> []
      | Some i \<Rightarrow> mp_read_locks i @ cb_OnPeerDisconnected cbs)"

definition evictPeer_locks :: "callbacks \<Rightarrow> nat \<Rightarrow> manager \<Rightarrow> lock_script" where
  "evictPeer_locks cbs i pm =
     [Lock PeersMu] @ removePeer_locks cbs (mp_address (pm_objs pm ! i)) pm @ [Unlock PeersMu]"

text \<open>The second loop of \<open>runHealthChecks\<close>: the log line reads the counter again.\<close>

fun removals_locks :: "callbacks \<Rightarrow> string list \<Rightarrow> manager \<Rightarrow> lock_script" where
  "removals_locks cbs [] pm = []"
| "removals_locks cbs (addr # addrs) pm =
     (case map_of (pm_peers pm) addr of None \<Rightarrow> [] | Some i \<Rightarrow> mp_read_locks i)
     @ removePeer_locks cbs addr pm @ removals_locks cbs addrs (snd (removePeer addr pm))"

definition runHealthChecks_locks :: "callbacks \<Rightarrow> manager \<Rightarrow> lock_script" where
  "runHealthChecks_locks cbs pm =
     (let toRemove = map fst (filter (\<lambda>(addr, i). unhealthy pm i) (pm_peers pm))
      in [Lock PeersMu] @ concat (map (\<lambda>(addr, i). mp_read_locks i @ mp_read_locks i) (pm_peers pm))
         @ removals_locks cbs toRemove pm @ [Unlock PeersMu])"

definition addDiscoveredPeers_locks :: lock_script where
  "addDiscoveredPeers_locks = [Lock PeersMu, Unlock PeersMu]"

fun handle_msg_locks :: "callbacks \<Rightarrow> peer_msg \<Rightarrow> lock_script" where
  "handle_msg_locks cbs MsgVersion = []"
| "handle_msg_locks cbs MsgVerAck = []"
| "handle_msg_locks cbs MsgHeaders = cb_OnHeaders cbs"
| "handle_msg_locks cbs MsgInv = cb_OnInv cbs"
| "handle_msg_locks cbs MsgBlock = cb_OnBlock cbs"
| "handle_msg_locks cbs MsgTx = cb_OnTx cbs"
| "handle_msg_locks cbs (MsgAddr as) = cb_OnAddr cbs @ addDiscoveredPeers_locks"
| "handle_msg_locks cbs MsgReject = []"

text \<open>One statement of \<open>connectionLoop\<close> or \<open>dial\<close>; the eviction's log line reads the counter again.\<close>

definition loop_locks :: "callbacks \<Rightarrow> nat \<Rightarrow> manager \<Rightarrow> lock_script" where
  "loop_locks cbs i pm =
     (case po_pc (pm_objs pm ! i) of
        L_Top \<Rightarrow> []
      | L_Connecting \<Rightarrow> mp_write_locks i
      | L_Dial \<Rightarrow> []
      | L_NewPeer \<Rightarrow> []
      | L_SetPeer \<Rightarrow> mp_write_locks i
      | L_DialFailed \<Rightarrow> mp_write_locks i
      | L_IncFailure \<Rightarrow> mp_write_locks i
      | L_CheckFailure \<Rightarrow> mp_read_locks i @ (if unhealthy pm i then mp_read_locks i else [])
      | L_Evict \<Rightarrow> evictPeer_locks cbs i pm
      | L_Connected \<Rightarrow> mp_write_locks i
      | L_Reset \<Rightarrow> mp_write_locks i
      | L_OnConnected \<Rightarrow> cb_OnPeerConnected cbs
      | L_GetAddr \<Rightarrow> mp_read_locks i
      | L_Block \<Rightarrow> mp_read_locks i
      | L_Disconnected \<Rightarrow> mp_write_locks i
      | L_Clear \<Rightarrow> mp_write_locks i
      | L_OnDisconnected \<Rightarrow> cb_OnPeerDisconnected cbs
      | L_Wait \<Rightarrow> []
      | L_Exited \<Rightarrow> [])"

section \<open>The client\<close>

definition AddPeer_locks :: lock_script where
  "AddPeer_locks = [RLock BcMu, Lock PeersMu, Unlock PeersMu, RUnlock BcMu]"

definition RemovePeer_locks :: "callbacks \<Rightarrow> string \<Rightarrow> manager \<Rightarrow> lock_script" where
  "RemovePeer_locks cbs address pm =
     [RLock BcMu, Lock PeersMu] @ removePeer_locks cbs address pm @ [Unlock PeersMu, RUnlock BcMu]"

definition PeerCount_locks :: lock_script where
  "PeerCount_locks = [RLock PeersMu, RUnlock PeersMu]"

definition Start_locks :: lock_script where
  "Start_locks = [Lock BcMu, Unlock BcMu]"

text \<open>\<open>Stop\<close> holds the client's mutex while it waits for the group, unless its context ends first.\<close>

definition Stop_locks :: "bool \<Rightarrow> manager \<Rightarrow> lock_script" where
  "Stop_locks timeout pm =
     [Lock BcMu]
     @ (if pm_started pm then
          [Lock PeersMu] @ concat (map (\<lambda>(addr, i). mp_read_locks i) (pm_peers pm)) @ [Unlock PeersMu]
          @ (if timeout then [] else [WgWait])
        else [])
     @ [Unlock BcMu]"

section \<open>The node and the header indexer\<close>

definition indexer_Start_locks :: "bool \<Rightarrow> lock_script" where
  "indexer_Start_locks running = [Lock IdxMu] @ (if running then [] else Start_locks) @ [Unlock IdxMu]"

definition indexer_Stop_locks :: "bool \<Rightarrow> bool \<Rightarrow> manager \<Rightarrow> lock_script" where
  "indexer_Stop_locks running timeout pm =
     [Lock IdxMu] @ (if running then Stop_locks timeout pm else []) @ [Unlock IdxMu]"

definition indexer_OnHeaders_locks :: "nat \<Rightarrow> lock_script" where
  "indexer_OnHeaders_locks n =
     (if n = 0 then []
      else [Lock IdxMu, Unlock IdxMu] @ (if n = 2000 then [] else [Lock IdxMu, Unlock IdxMu]))"

definition node_callbacks :: "nat \<Rightarrow> callbacks" where
  "node_callbacks n = no_callbacks\<lparr>cb_OnHeaders := indexer_OnHeaders_locks n\<rparr>"

definition hi_onPeerConnected_locks :: "nat \<Rightarrow> lock_script" where
  "hi_onPeerConnected_locks i = [Lock AppMu, Unlock AppMu] @ mp_read_locks i"

definition hi_onHeaders_locks :: "nat \<Rightarrow> nat \<Rightarrow> lock_script" where
  "hi_onHeaders_locks i n =
     (if n = 0 then []
      else [Lock AppMu, Unlock AppMu] @ (if n = 2000 then mp_read_locks i else [Lock AppMu, Unlock AppMu]))"

definition hi_onInv_locks :: "nat \<Rightarrow> bool \<Rightarrow> bool \<Rightarrow> lock_script" where
  "hi_onInv_locks i hasBlock synced =
     (if \<not> hasBlock then []
      else [Lock AppMu, Unlock AppMu] @ (if synced then mp_read_locks i else []))"

definition hi_height_locks :: lock_script where
  "hi_height_locks = [Lock AppMu, Unlock AppMu]"

definition hi_callbacks :: "nat \<Rightarrow> nat \<Rightarrow> bool \<Rightarrow> bool \<Rightarrow> callbacks" where
  "hi_callbacks i n hasBlock synced =
     no_callbacks\<lparr>cb_OnHeaders := hi_onHeaders_locks i n, cb_OnPeerConnected := hi_onPeerConnected_locks i,
       cb_OnInv := hi_onInv_locks i hasBlock synced\<rparr>"

section \<open>Operations\<close>

text \<open>
  What goroutines run: API calls of the client and the node, statements of connection loops, health
  checks, and message handlers, each with the manager it finds.
\<close>

datatype lock_op =
    LoAddPeer
  | LoRemovePeer string manager
  | LoPeerCount
  | LoStart
  | LoStop bool manager
  | LoIndexerStart bool
  | LoIndexerStop bool bool manager
  | LoMessage peer_msg
  | LoHeight
  | LoLoop nat manager
  | LoHealthCheck manager

definition op_locks :: "callbacks \<times> lock_op \<Rightarrow> lock_script" where
  "op_locks = (\<lambda>(cbs, x).
     case x of
       LoAddPeer \<Rightarrow> AddPeer_locks
     | LoRemovePeer a pm \<Rightarrow> RemovePeer_locks cbs a pm
     | LoPeerCount \<Rightarrow> PeerCount_locks
     | LoStart \<Rightarrow> Start_locks
     | LoStop timeout pm \<Rightarrow> Stop_locks timeout pm
     | LoIndexerStart running \<Rightarrow> indexer_Start_locks running
     | LoIndexerStop running timeout pm \<Rightarrow> indexer_Stop_locks running timeout pm
     | LoMessage msg \<Rightarrow> handle_msg_locks cbs msg
     | LoHeight \<Rightarrow> hi_height_locks
     | LoLoop i pm \<Rightarrow> loop_locks cbs i pm
     | LoHealthCheck pm \<Rightarrow> runHealthChecks_locks cbs pm)"

text \<open>Connection loops and the health-check loop are the goroutines that the wait group counts.\<close>

fun counted_op :: "lock_op \<Rightarrow> bool" where
  "counted_op (LoLoop i pm) = True"
| "counted_op (LoHealthCheck pm) = True"
| "counted_op _ = False"

section \<open>The hierarchy\<close>

fun lock_rank :: "node_lock \<Rightarrow> nat" where
  "lock_rank IdxMu = 0"
| "lock_rank BcMu = 1"
| "lock_rank PeersMu = 3"
| "lock_rank (MpMu i) = 4"
| "lock_rank AppMu = 5"

definition wg_rank :: nat where
  "wg_rank = 2"

abbreviation follows :: "node_lock held \<Rightarrow> lock_script \<Rightarrow> bool" where
  "follows h is \<equiv> held_after lock_rank wg_rank h is = Some h"

text \<open>
  A callback must follow the hierarchy from what is held where it runs: nothing for a message, the
  wait group's count for \<open>OnPeerConnected\<close>, and for \<open>OnPeerDisconnected\<close> the registry's lock too
  when a peer is removed, under the client's lock as well if by \<open>RemovePeer\<close>.
\<close>

definition callbacks_ok :: "callbacks \<Rightarrow> bool" where
  "callbacks_ok cbs \<longleftrightarrow>
     list_all (follows ([], [], False))
       [cb_OnHeaders cbs, cb_OnInv cbs, cb_OnBlock cbs, cb_OnTx cbs, cb_OnAddr cbs] \<and>
     follows ([], [], True) (cb_OnPeerConnected cbs) \<and>
     list_all (\<lambda>h. follows h (cb_OnPeerDisconnected cbs))
       [([], [], True), ([PeersMu], [], True), ([PeersMu], [BcMu], False)]"

definition op_allowed :: "bool \<Rightarrow> callbacks \<times> lock_op \<Rightarrow> bool" where
  "op_allowed counted = (\<lambda>(cbs, x). callbacks_ok cbs \<and> counted_op x = counted)"

section \<open>Every operation follows it\<close>

lemmas lock_script_defs = mp_read_locks_def mp_write_locks_def AddPeer_locks_def RemovePeer_locks_def
  PeerCount_locks_def Start_locks_def Stop_locks_def indexer_Start_locks_def indexer_Stop_locks_def
  addDiscoveredPeers_locks_def hi_height_locks_def

lemma wg_rank_less [simp]: "wg_rank < n \<longleftrightarrow> 2 < n" "n < wg_rank \<longleftrightarrow> n < 2"
  by (simp_all add: wg_rank_def)

lemma read_follows [simp]:
  assumes "list_all (\<lambda>m. lock_rank m < 4) (W @ R)"
  shows "held_after lock_rank wg_rank (W, R, c) (mp_read_locks i) = Some (W, R, c)"
    and "held_after lock_rank wg_rank (W, R, c) (mp_write_locks i) = Some (W, R, c)"
  using assms by (simp_all add: mp_read_locks_def mp_write_locks_def)

text \<open>Where \<open>removePeer\<close> runs: in \<open>RemovePeer\<close>, or in a counted goroutine.\<close>

definition registry_context :: "node_lock held \<Rightarrow> bool" where
  "registry_context h \<longleftrightarrow> h = ([PeersMu], [], True) \<or> h = ([PeersMu], [BcMu], False)"

lemma registry_context_simps [simp]:
  "registry_context ([PeersMu], [], True)" "registry_context ([PeersMu], [BcMu], False)"
  by (simp_all add: registry_context_def)

lemma read_in_registry [simp]: "registry_context h \<Longrightarrow> follows h (mp_read_locks i)"
  by (auto simp: registry_context_def)

lemma removePeer_follows [simp]:
  "callbacks_ok cbs \<Longrightarrow> registry_context h \<Longrightarrow> follows h (removePeer_locks cbs a pm)"
  by (auto simp: removePeer_locks_def held_after_append callbacks_ok_def registry_context_def split: option.splits)

lemma removals_follow [simp]:
  "callbacks_ok cbs \<Longrightarrow> registry_context h \<Longrightarrow> follows h (removals_locks cbs as pm)"
proof (induction cbs as pm rule: removals_locks.induct)
  case (2 cbs addr addrs pm)
  then show ?case by (cases "map_of (pm_peers pm) addr") (simp_all add: held_after_append)
qed (simp add: registry_context_def)

lemma reads_follow [simp]:
  assumes "list_all (\<lambda>m. lock_rank m < 4) (W @ R)"
  shows "follows (W, R, c) (concat (map (\<lambda>(addr, i). mp_read_locks i) ps))"
    and "follows (W, R, c) (concat (map (\<lambda>(addr, i). mp_read_locks i @ mp_read_locks i) ps))"
  by (rule held_after_concat; use assms in \<open>auto simp: list_all_iff held_after_append\<close>)+

lemma evict_follows [simp]: "callbacks_ok cbs \<Longrightarrow> follows ([], [], True) (evictPeer_locks cbs i pm)"
  by (simp add: evictPeer_locks_def held_after_append)

lemma health_follows [simp]: "callbacks_ok cbs \<Longrightarrow> follows ([], [], True) (runHealthChecks_locks cbs pm)"
  by (simp add: runHealthChecks_locks_def Let_def held_after_append)

lemma Stop_follows [simp]:
  "list_all (\<lambda>m. lock_rank m < 1) W \<Longrightarrow> follows (W, [], False) (Stop_locks timeout pm)"
  by (auto simp: Stop_locks_def held_after_append list_all_iff)

lemma message_follows [simp]: "callbacks_ok cbs \<Longrightarrow> follows ([], [], False) (handle_msg_locks cbs msg)"
  by (cases msg) (simp_all add: callbacks_ok_def held_after_append addDiscoveredPeers_locks_def)

lemma loop_follows [simp]: "callbacks_ok cbs \<Longrightarrow> follows ([], [], True) (loop_locks cbs i pm)"
  by (cases "po_pc (pm_objs pm ! i)") (simp_all add: loop_locks_def held_after_append callbacks_ok_def)

lemma op_follows: "op_allowed c x \<Longrightarrow> follows ([], [], c) (op_locks x)"
  by (cases x; cases "snd x")
     (auto simp: op_allowed_def op_locks_def lock_script_defs held_after_append)

interpretation client_locks: lock_discipline lock_rank wg_rank op_locks op_allowed
  by unfold_locales (rule op_follows)

text \<open>The callbacks of the repository's own programs follow the hierarchy.\<close>

lemma node_callbacks_ok: "callbacks_ok (node_callbacks n)"
  by (simp add: callbacks_ok_def node_callbacks_def no_callbacks_def indexer_OnHeaders_locks_def)

lemma hi_callbacks_ok: "callbacks_ok (hi_callbacks i n hasBlock synced)"
  by (simp add: callbacks_ok_def hi_callbacks_def no_callbacks_def hi_onHeaders_locks_def
      hi_onPeerConnected_locks_def hi_onInv_locks_def held_after_append)

end
