(* ===== verification/Lock_Props.thy ===== *)
theory Lock_Props
  imports Client_Locks Client_Evict
begin

text \<open>
  The properties of locking: goroutines that run the operations of the client and the node never
  deadlock, and callbacks that call back into the client do.
\<close>

text \<open>C6. Locks never deadlock. Let any number of goroutines run any sequences of operations: API calls
  of the client and of the node, message handlers, connection loops and health checks, each in any
  state, with callbacks that follow the lock hierarchy where they run (those of the node and of the
  header indexer do). Under every schedule no lock is misused, a lock held for writing has one owner
  and no readers, and as long as some goroutine has not finished one of them can step. A schedule has
  at most two steps per lock operation, so in the end all goroutines finish.\<close>

theorem locks_never_deadlock:
  assumes "list_all (program_ok op_allowed) ps"
  shows "let S0 = map (launch op_locks) ps
     in (\<forall>s. lock_run S0 ts \<noteq> Panic s) \<and>
        (\<forall>S. lock_run S0 ts = Next S \<longrightarrow>
           \<not> deadlocked S \<and> exclusive S \<and> length ts \<le> 2 * sum_list (map (length \<circ> gr_script) S0))"
proof -
  let ?S = "map (launch op_locks) ps"
  have "lock_work S \<le> 2 * sum_list (map (length \<circ> gr_script) S)" for S :: "node_lock system"
    by (induction S) (auto simp: lock_work_def gr_work_def)
  with client_locks.programs_progress [OF assms, of ts] show ?thesis
    unfolding Let_def by (metis order_trans)
qed

text \<open>A client with a connected peer, whose loop is about to call \<open>OnPeerConnected\<close>.\<close>

definition connecting_client :: manager where
  "connecting_client =
     state_of (client_run (demo_client 3) ([AStart, AAddPeer False ''p''] @ replicate 7 (ALoop 0 True)))"

lemma locks_never_deadlock_witness:
  "\<not> deadlocked (map (launch op_locks)
     [Plain [(node_callbacks 5, LoStop False connecting_client)],
      Counted [(node_callbacks 5, LoLoop 0 connecting_client)]])"
proof -
  let ?ps = "[Plain [(node_callbacks 5, LoStop False connecting_client)],
      Counted [(node_callbacks 5, LoLoop 0 connecting_client)]]"
  have "list_all (program_ok op_allowed) ?ps"
    using node_callbacks_ok [of 5] by (simp add: program_ok_def op_allowed_def)
  from locks_never_deadlock [OF this, of "[]"] show ?thesis by (simp add: Let_def)
qed

text \<open>C29. Callbacks must not call back. In a reachable state, \<open>RemovePeer\<close> with an
  \<open>OnPeerDisconnected\<close> that asks for the peer count never returns: the goroutine waits for the
  registry's lock, which it holds itself. And with an \<open>OnPeerConnected\<close> that adds a peer, \<open>Stop\<close> and
  the connection loop wait for each other until the timeout of \<open>Stop\<close>.\<close>

theorem reentrant_callbacks_deadlock:
  "\<exists>pm ts S us T. reach pm \<and> map_of (pm_peers pm) ''p'' = Some 0 \<and>
     po_pc (pm_objs pm ! 0) = L_OnConnected \<and>
     lock_run (map (launch op_locks)
       [Plain [(no_callbacks\<lparr>cb_OnPeerDisconnected := PeerCount_locks\<rparr>, LoRemovePeer ''p'' pm)]]) ts = Next S \<and>
     deadlocked S \<and>
     lock_run (map (launch op_locks)
       [Plain [(no_callbacks, LoStop False pm)],
        Counted [(no_callbacks\<lparr>cb_OnPeerConnected := AddPeer_locks\<rparr>, LoLoop 0 pm)]]) us = Next T \<and>
     deadlocked T"
proof -
  let ?A = "map (launch op_locks)
    [Plain [(no_callbacks\<lparr>cb_OnPeerDisconnected := PeerCount_locks\<rparr>, LoRemovePeer ''p'' connecting_client)]]"
  let ?B = "map (launch op_locks)
    [Plain [(no_callbacks, LoStop False connecting_client)],
     Counted [(no_callbacks\<lparr>cb_OnPeerConnected := AddPeer_locks\<rparr>, LoLoop 0 connecting_client)]]"
  have "reach connecting_client"
    unfolding connecting_client_def by (rule demo_run_reach) (simp, code_simp)
  moreover have pm: "map_of (pm_peers connecting_client) ''p'' = Some 0"
    "po_pc (pm_objs connecting_client ! 0) = L_OnConnected" "pm_started connecting_client"
    "pm_peers connecting_client = [(''p'', 0)]"
    by code_simp+
  have "\<exists>S. lock_run ?A [0, 0, 0, 0, 0] = Next S \<and> deadlocked S"
    by (simp add: op_locks_def RemovePeer_locks_def removePeer_locks_def pm launch_def mp_read_locks_def
        PeerCount_locks_def lock_step_def gr_step_def claims_def reads_def deadlocked_def gr_finished_def)
  moreover have "\<exists>T. lock_run ?B [0, 0, 0, 0, 0, 0, 0] = Next T \<and> deadlocked T"
    by (simp add: op_locks_def Stop_locks_def pm launch_def mp_read_locks_def loop_locks_def
        AddPeer_locks_def lock_step_def gr_step_def claims_def reads_def deadlocked_def gr_finished_def)
  ultimately show ?thesis using pm by blast
qed

end
