(* ===== verification/Indexer.thy ===== *)
theory Indexer
  imports Client_Evict
begin

text \<open>
  The indexing node: \<open>indexer/indexer.go\<close> (configuration, lifecycle, peers), \<open>headers.go\<close> (the
  header chain), \<open>common.go\<close> (requests) and the handlers that are still empty. The node keeps a P2P
  client and calls its \<open>Start\<close>, \<open>Stop\<close> and \<open>AddPeer\<close>. A block header is a type variable, and the
  function that hashes it is a parameter, as both come from btcd.
\<close>

section \<open>Errors and configuration\<close>

datatype indexer_error =
    ErrAlreadyRunning
  | ErrNotRunning
  | ErrUnknownNetwork string
  | ErrNoPeers
  | ErrBadMaxPeers int
  | ErrCreateClient client_error
  | ErrStartClient client_error
  | ErrShutdownFailed client_error
  | ErrAllPeersFailed "(string \<times> client_error) list"

record ('l, 'db) indexer_config =
  ic_ChainParams :: "chain_params option"
  ic_MaxPeers :: int
  ic_Peers :: "string list"
  ic_Listeners :: "listeners option"
  ic_ShutdownTimeout :: int
  ic_Logger :: "'l option"
  ic_Store :: "'db option"

text \<open>The networks of \<open>chaincfg\<close>.\<close>

record networks =
  net_MainNet :: chain_params
  net_SigNet :: chain_params
  net_TestNet3 :: chain_params
  net_Regression :: chain_params
  net_SimNet :: chain_params

definition indexer_DefaultConfig :: "networks \<Rightarrow> ('l, 'db) indexer_config" where
  "indexer_DefaultConfig nets =
     \<lparr>ic_ChainParams = Some (net_MainNet nets), ic_MaxPeers = 10, ic_Peers = [],
      ic_Listeners = Some no_listeners, ic_ShutdownTimeout = 10 * second, ic_Logger = None, ic_Store = None\<rparr>"

definition indexer_validate :: "('l, 'db) indexer_config \<Rightarrow> indexer_error + ('l, 'db) indexer_config" where
  "indexer_validate c =
     (if ic_ChainParams c = None then Inl (ErrUnknownNetwork ''chain params must not be nil'')
      else if ic_MaxPeers c \<le> 0 then Inl (ErrBadMaxPeers (ic_MaxPeers c))
      else
        (let c1 = (if ic_Listeners c = None then c\<lparr>ic_Listeners := Some no_listeners\<rparr> else c);
             c2 = (if ic_ShutdownTimeout c1 \<le> 0 then c1\<lparr>ic_ShutdownTimeout := 10 * second\<rparr> else c1)
         in Inr c2))"

definition ResolveChainParams :: "networks \<Rightarrow> string \<Rightarrow> indexer_error + chain_params" where
  "ResolveChainParams nets name =
     (if name = ''mainnet'' then Inr (net_MainNet nets)
      else if name = ''signet'' then Inr (net_SigNet nets)
      else if name = ''testnet3'' then Inr (net_TestNet3 nets)
      else if name = ''regtest'' then Inr (net_Regression nets)
      else if name = ''simnet'' then Inr (net_SimNet nets)
      else Inl (ErrUnknownNetwork name))"

type_synonym ('l, 'db) indexer_option = "('l, 'db) indexer_config \<Rightarrow> ('l, 'db) indexer_config"

definition indexer_WithChainParams :: "chain_params option \<Rightarrow> ('l, 'db) indexer_option" where
  "indexer_WithChainParams params = (\<lambda>c. c\<lparr>ic_ChainParams := params\<rparr>)"

definition indexer_WithNetwork :: "networks \<Rightarrow> string \<Rightarrow> ('l, 'db) indexer_option" where
  "indexer_WithNetwork nets name =
     (\<lambda>c. case ResolveChainParams nets name of Inr p \<Rightarrow> c\<lparr>ic_ChainParams := Some p\<rparr> | Inl _ \<Rightarrow> c)"

definition indexer_WithMaxPeers :: "int \<Rightarrow> ('l, 'db) indexer_option" where
  "indexer_WithMaxPeers n = (\<lambda>c. c\<lparr>ic_MaxPeers := n\<rparr>)"

definition indexer_WithDb :: "'db option \<Rightarrow> ('l, 'db) indexer_option" where
  "indexer_WithDb d = (\<lambda>c. c\<lparr>ic_Store := d\<rparr>)"

definition indexer_WithPeers :: "string list \<Rightarrow> ('l, 'db) indexer_option" where
  "indexer_WithPeers addrs = (\<lambda>c. c\<lparr>ic_Peers := addrs\<rparr>)"

definition indexer_WithListeners :: "listeners option \<Rightarrow> ('l, 'db) indexer_option" where
  "indexer_WithListeners l = (\<lambda>c. c\<lparr>ic_Listeners := l\<rparr>)"

definition indexer_WithShutdownTimeout :: "int \<Rightarrow> ('l, 'db) indexer_option" where
  "indexer_WithShutdownTimeout d = (\<lambda>c. c\<lparr>ic_ShutdownTimeout := d\<rparr>)"

definition indexer_WithLogger :: "'l option \<Rightarrow> ('l, 'db) indexer_option" where
  "indexer_WithLogger l = (\<lambda>c. c\<lparr>ic_Logger := l\<rparr>)"

section \<open>The node\<close>

record ('h, 'l, 'db) indexer =
  ix_cfg :: "('l, 'db) indexer_config"
  ix_client :: manager
  ix_tipHash :: bytes
  ix_headers :: "'h list"
  ix_running :: bool
  ix_synced :: bool

text \<open>
  \<open>New\<close>. \<open>deflt\<close> is the global default logger, \<open>tag\<close> stands for \<open>With("component", ...)\<close>. After
  validation the chain parameters are not nil.
\<close>

definition indexer_New :: "networks \<Rightarrow> 'l \<Rightarrow> ('l \<Rightarrow> 'l) \<Rightarrow> ('l, 'db) indexer_option list
    \<Rightarrow> indexer_error + ('h, 'l, 'db) indexer" where
  "indexer_New nets deflt tag opts =
     (case indexer_validate (apply_options opts (indexer_DefaultConfig nets)) of
        Inl e \<Rightarrow> Inl e
      | Inr cfg \<Rightarrow>
          (let log = tag (case ic_Logger cfg of None \<Rightarrow> deflt | Some l \<Rightarrow> l) in
           case NewBtcClient [client_WithChainParams (ic_ChainParams cfg), client_WithMaxPeers (ic_MaxPeers cfg),
                  client_WithLogger (Some log), client_WithListeners (ic_Listeners cfg)] (net_MainNet nets) of
             Inl e \<Rightarrow> Inl (ErrCreateClient e)
           | Inr client \<Rightarrow>
               Inr \<lparr>ix_cfg = cfg, ix_client = client,
                    ix_tipHash = cp_GenesisHash (the (ic_ChainParams cfg)),
                    ix_headers = [], ix_running = False, ix_synced = False\<rparr>))"

definition indexer_Start :: "('h, 'l, 'db) indexer \<Rightarrow> indexer_error option \<times> ('h, 'l, 'db) indexer" where
  "indexer_Start idx =
     (if ix_running idx then (Some ErrAlreadyRunning, idx)
      else
        (case client_Start (ix_client idx) of
           (Some e, pm) \<Rightarrow> (Some (ErrStartClient e), idx\<lparr>ix_client := pm\<rparr>)
         | (None, pm) \<Rightarrow> (None, idx\<lparr>ix_client := pm, ix_running := True\<rparr>)))"

text \<open>
  \<open>client.Stop(ctx)\<close> as seen by its caller: it fails at once, panics, or runs its phases while the
  other goroutines go on, and ends gracefully or by its timeout.
\<close>

inductive client_Stop :: "manager \<Rightarrow> (client_error option \<times> manager) outcome \<Rightarrow> bool" where
  stop_at_once: "client_exec pm AStopClose = Next (Some e, pm') \<Longrightarrow> client_Stop pm (Next (Some e, pm'))"
| stop_panic: "client_exec pm AStopClose = Panic s \<Longrightarrow> client_Stop pm (Panic s)"
| stop_ends: "client_exec pm AStopClose = Next (None, pm1) \<Longrightarrow> client_run pm1 as = Next pm2 \<Longrightarrow>
    a \<in> {AStopGraceful, AStopTimeout} \<Longrightarrow> client_exec pm2 a = Next (e, pm3) \<Longrightarrow>
    client_Stop pm (Next (e, pm3))"

text \<open>\<open>Stop\<close>, given how the client's \<open>Stop\<close> ends.\<close>

definition indexer_Stop :: "(client_error option \<times> manager) outcome \<Rightarrow> ('h, 'l, 'db) indexer
    \<Rightarrow> (indexer_error option \<times> ('h, 'l, 'db) indexer) outcome" where
  "indexer_Stop stop idx =
     (if \<not> ix_running idx then Next (Some ErrNotRunning, idx)
      else
        (case stop of
           Next (e, pm) \<Rightarrow>
             (let idx1 = idx\<lparr>ix_client := pm, ix_running := False\<rparr>
              in case e of Some e \<Rightarrow> Next (Some (ErrShutdownFailed e), idx1) | None \<Rightarrow> Next (None, idx1))
         | Panic s \<Rightarrow> Panic s
         | Blocked \<Rightarrow> Blocked))"

section \<open>Peers\<close>

text \<open>One loop of \<open>resolvePeers\<close>: skip what was seen, append the rest.\<close>

fun resolve_loop :: "string list \<Rightarrow> string set \<times> string list \<Rightarrow> string set \<times> string list" where
  "resolve_loop [] acc = acc"
| "resolve_loop (p # ps) (seen, peers) =
     (if p \<in> seen then resolve_loop ps (seen, peers)
      else resolve_loop ps (insert p seen, peers @ [p]))"

definition resolvePeers :: "string list \<Rightarrow> chain_params \<Rightarrow> string list" where
  "resolvePeers peers params =
     snd (resolve_loop (map (\<lambda>seed. seed @ '':'' @ cp_DefaultPort params) (cp_DNSSeeds params))
       (resolve_loop peers ({}, [])))"

definition indexer_peers :: "('h, 'l, 'db) indexer \<Rightarrow> string list" where
  "indexer_peers idx = resolvePeers (ic_Peers (ix_cfg idx)) (the (ic_ChainParams (ix_cfg idx)))"

text \<open>The loop of \<open>connectPeers\<close> over a client's \<open>AddPeer\<close>; it collects the failures.\<close>

fun connect_loop :: "(string \<Rightarrow> 'c \<Rightarrow> client_error option \<times> 'c) \<Rightarrow> string list \<Rightarrow> 'c
    \<Rightarrow> (string \<times> client_error) list \<times> 'c" where
  "connect_loop add [] c = ([], c)"
| "connect_loop add (addr # addrs) c =
     (let (e, c1) = add addr c; (errs, c2) = connect_loop add addrs c1
      in (case e of Some e \<Rightarrow> (addr, e) # errs | None \<Rightarrow> errs, c2))"

definition connect_result :: "string list \<Rightarrow> (string \<times> client_error) list \<Rightarrow> indexer_error option" where
  "connect_result peers errs =
     (if peers = [] then Some ErrNoPeers
      else if length errs = length peers then Some (ErrAllPeersFailed errs)
      else None)"

definition connectPeers :: "bool \<Rightarrow> ('h, 'l, 'db) indexer \<Rightarrow> indexer_error option \<times> ('h, 'l, 'db) indexer" where
  "connectPeers cancelled idx =
     (let peers = indexer_peers idx;
          (errs, client) = connect_loop (addPeer cancelled) peers (ix_client idx)
      in (connect_result peers errs, idx\<lparr>ix_client := client\<rparr>))"

text \<open>
  \<open>Run\<close> up to the point where it calls \<open>Stop\<close>: it returns an error of \<open>Start\<close>; it stops at once
  and returns an error of \<open>connectPeers\<close>; or it waits for its context and returns what \<open>Stop\<close> does.
\<close>

datatype run_phase = RunReturns "indexer_error option" | RunStops "indexer_error option"

definition indexer_Run :: "bool \<Rightarrow> ('h, 'l, 'db) indexer \<Rightarrow> run_phase \<times> ('h, 'l, 'db) indexer" where
  "indexer_Run cancelled idx =
     (case indexer_Start idx of
        (Some e, idx1) \<Rightarrow> (RunReturns (Some e), idx1)
      | (None, idx1) \<Rightarrow>
          (case connectPeers cancelled idx1 of (e, idx2) \<Rightarrow> (RunStops e, idx2)))"

section \<open>Headers\<close>

definition append_header :: "('h \<Rightarrow> bytes) \<Rightarrow> 'h \<Rightarrow> ('h, 'l, 'db) indexer \<Rightarrow> ('h, 'l, 'db) indexer" where
  "append_header blockHash hdr idx =
     idx\<lparr>ix_headers := ix_headers idx @ [hdr], ix_tipHash := blockHash hdr\<rparr>"

definition indexer_OnHeaders :: "('h \<Rightarrow> bytes) \<Rightarrow> 'h list \<Rightarrow> ('h, 'l, 'db) indexer \<Rightarrow> ('h, 'l, 'db) indexer" where
  "indexer_OnHeaders blockHash hdrs idx =
     (if hdrs = [] then idx
      else
        (let idx1 = fold (append_header blockHash) hdrs idx
         in if length hdrs = 2000 then idx1 else idx1\<lparr>ix_synced := True\<rparr>))"

text \<open>The other handlers have empty bodies: they queue nothing and leave the node as it is.\<close>

definition indexer_OnBlock :: "('h, 'l, 'db) indexer \<Rightarrow> ('h, 'l, 'db) indexer" where
  "indexer_OnBlock idx = idx"

definition indexer_OnInv :: "('h, 'l, 'db) indexer \<Rightarrow> ('h, 'l, 'db) indexer" where
  "indexer_OnInv idx = idx"

definition indexer_OnTx :: "('h, 'l, 'db) indexer \<Rightarrow> ('h, 'l, 'db) indexer" where
  "indexer_OnTx idx = idx"

definition indexer_OnPeerConnected :: "('h, 'l, 'db) indexer \<Rightarrow> ('h, 'l, 'db) indexer" where
  "indexer_OnPeerConnected idx = idx"

definition indexer_OnPeerDisconnected :: "('h, 'l, 'db) indexer \<Rightarrow> ('h, 'l, 'db) indexer" where
  "indexer_OnPeerDisconnected idx = idx"

text \<open>The messages that \<open>RequestHeaders\<close> and \<open>RequestBlock\<close> queue on a peer that is not nil.\<close>

datatype inv_type = InvTypeBlock | InvTypeWitnessBlock | InvTypeOther

datatype request = GetHeaders "bytes list" bytes | GetData "(inv_type \<times> bytes) list"

definition zero_hash :: bytes where
  "zero_hash = replicate 32 0"

definition RequestHeaders :: "nat option \<Rightarrow> bytes \<Rightarrow> (nat \<times> request) list" where
  "RequestHeaders peer fromHash =
     (case peer of None \<Rightarrow> [] | Some p \<Rightarrow> [(p, GetHeaders [fromHash] zero_hash)])"

definition RequestBlock :: "nat option \<Rightarrow> bytes \<Rightarrow> (nat \<times> request) list" where
  "RequestBlock peer blockHash =
     (case peer of None \<Rightarrow> [] | Some p \<Rightarrow> [(p, GetData [(InvTypeWitnessBlock, blockHash)])])"

end
