(* ===== verification/Indexer_Inv.thy ===== *)
theory Indexer_Inv
  imports Indexer
begin

text \<open>
  Lemmas on the indexing node. What it relies on in the client's \<open>AddPeer\<close> is the interface
  \<open>peer_client\<close>, which the manager of \<open>pkg/btcclient\<close> provides; the rest is about the resolved
  peers, the header chain and the life cycle.
\<close>

section \<open>The interface to the client\<close>

locale peer_client =
  fixes add :: "string \<Rightarrow> 'c \<Rightarrow> client_error option \<times> 'c"
    and peers :: "'c \<Rightarrow> string list"
    and capacity :: "'c \<Rightarrow> int"
  assumes add_ok: "add a c = (None, c') \<Longrightarrow>
      a \<notin> set (peers c) \<and> int (length (peers c)) < capacity c \<and> peers c' = peers c @ [a] \<and> capacity c' = capacity c"
    and add_fails: "add a c = (Some e, c') \<Longrightarrow>
      c' = c \<and> (if a \<in> set (peers c) then e = ErrPeerAlreadyExists
               else e = ErrMaxPeersReached \<and> capacity c \<le> int (length (peers c)))"
begin

definition free :: "'c \<Rightarrow> nat" where
  "free c = nat (capacity c - int (length (peers c)))"

text \<open>The loop registers the first new addresses that fit, in order.\<close>

lemma connect_adds:
  "peers (snd (connect_loop add addrs c)) = peers c @ take (free c) (first_occs (set (peers c)) addrs) \<and>
   capacity (snd (connect_loop add addrs c)) = capacity c"
proof (induction addrs arbitrary: c)
  case (Cons a addrs)
  obtain e c1 where ac: "add a c = (e, c1)" by force
  show ?case
  proof (cases e)
    case None
    with add_ok ac have k: "a \<notin> set (peers c)" "int (length (peers c)) < capacity c" "peers c1 = peers c @ [a]"
      "capacity c1 = capacity c" by blast+
    then have "free c = Suc (free c1)" by (simp add: free_def nat_diff_distrib')
    with Cons [of c1] k ac None show ?thesis by (auto simp: case_prod_beta)
  next
    case (Some err)
    with add_fails ac have k: "c1 = c" "a \<notin> set (peers c) \<Longrightarrow> capacity c \<le> int (length (peers c))"
      by (metis (full_types))+
    then have "a \<notin> set (peers c) \<Longrightarrow> free c = 0" by (simp add: free_def)
    with Cons [of c] k ac show ?thesis by (auto simp: case_prod_beta)
  qed
qed simp

text \<open>Every address is either added or reported, in order and with its reason.\<close>

lemma connect_counts:
  "length (fst (connect_loop add addrs c)) + length (peers (snd (connect_loop add addrs c))) =
   length addrs + length (peers c)"
proof (induction addrs arbitrary: c)
  case (Cons a addrs)
  obtain e c1 where ac: "add a c = (e, c1)" by force
  show ?case
  proof (cases e)
    case None
    with add_ok ac have "peers c1 = peers c @ [a]" by blast
    with Cons [of c1] ac None show ?thesis by (simp add: case_prod_beta)
  next
    case (Some err)
    with add_fails ac have "c1 = c" by blast
    with Cons [of c] ac Some show ?thesis by (simp add: case_prod_beta)
  qed
qed simp

lemma connect_reports:
  "(a, e) \<in> set (fst (connect_loop add addrs c)) \<Longrightarrow>
   a \<in> set addrs \<and> (e = ErrPeerAlreadyExists \<or> e = ErrMaxPeersReached)"
proof (induction addrs arbitrary: c)
  case (Cons b addrs)
  obtain r c1 where bc: "add b c = (r, c1)" by force
  have "e' = ErrPeerAlreadyExists \<or> e' = ErrMaxPeersReached" if "r = Some e'" for e'
    using add_fails [of b c e' c1] bc that by (auto split: if_splits)
  with Cons bc show ?case by (auto simp: case_prod_beta split: option.splits)
qed simp

text \<open>A client without peers takes as many of the addresses as fit, at least one.\<close>

lemma connect_fresh:
  assumes "peers c = []" and "distinct addrs" and "0 < capacity c"
  shows "peers (snd (connect_loop add addrs c)) = take (nat (capacity c)) addrs"
    and "length (fst (connect_loop add addrs c)) = length addrs - nat (capacity c)"
    and "addrs \<noteq> [] \<Longrightarrow> connect_result addrs (fst (connect_loop add addrs c)) = None"
proof -
  have "first_occs S xs = xs" if "distinct xs" "set xs \<inter> S = {}" for S and xs :: "string list"
    using that by (induction xs arbitrary: S) auto
  with assms(2) have f: "first_occs {} addrs = addrs" by simp
  show p: "peers (snd (connect_loop add addrs c)) = take (nat (capacity c)) addrs"
    using connect_adds [of addrs c] assms(1) f by (simp add: free_def)
  show l: "length (fst (connect_loop add addrs c)) = length addrs - nat (capacity c)"
    using connect_counts [of addrs c] p assms(1) by simp
  show "connect_result addrs (fst (connect_loop add addrs c)) = None" if "addrs \<noteq> []"
    using l that assms(3) by (cases addrs) (auto simp: connect_result_def)
qed

end

interpretation p2p: peer_client "addPeer cancelled" "\<lambda>pm. map fst (pm_peers pm)" pm_maxPeers for cancelled
proof
  fix a pm pm'
  assume "addPeer cancelled a pm = (None, pm')"
  then show "a \<notin> set (map fst (pm_peers pm)) \<and> int (length (map fst (pm_peers pm))) < pm_maxPeers pm \<and>
      map fst (pm_peers pm') = map fst (pm_peers pm) @ [a] \<and> pm_maxPeers pm' = pm_maxPeers pm"
    by (auto simp: addPeer_def spawn_peer_def update_new map_of_eq_None_iff split: if_splits)
next
  fix a pm e pm'
  assume "addPeer cancelled a pm = (Some e, pm')"
  then show "pm' = pm \<and> (if a \<in> set (map fst (pm_peers pm)) then e = ErrPeerAlreadyExists
      else e = ErrMaxPeersReached \<and> pm_maxPeers pm \<le> int (length (map fst (pm_peers pm))))"
    by (auto simp: addPeer_def map_of_eq_None_iff image_iff split: if_splits dest: map_of_SomeD)
qed

section \<open>Resolved peers\<close>

lemma resolve_loop_first_occs:
  "resolve_loop ps (seen, peers) = (seen \<union> set ps, peers @ first_occs seen ps)"
  by (induction ps arbitrary: seen peers) (auto simp: insert_absorb)

lemma resolvePeers_first_occs:
  "resolvePeers peers params =
   first_occs {} (peers @ map (\<lambda>seed. seed @ '':'' @ cp_DefaultPort params) (cp_DNSSeeds params))"
  by (simp add: resolvePeers_def resolve_loop_first_occs first_occs_append)

lemma distinct_indexer_peers [simp]: "distinct (indexer_peers idx)"
  by (simp add: indexer_peers_def resolvePeers_first_occs)

section \<open>Headers\<close>

lemma fold_append_header:
  "fold (append_header blockHash) hdrs idx =
   idx\<lparr>ix_headers := ix_headers idx @ hdrs,
       ix_tipHash := (if hdrs = [] then ix_tipHash idx else blockHash (last hdrs))\<rparr>"
  by (induction hdrs arbitrary: idx) (auto simp: append_header_def)

lemma OnHeaders_spec:
  "indexer_OnHeaders blockHash hdrs idx =
   idx\<lparr>ix_headers := ix_headers idx @ hdrs,
       ix_tipHash := (if hdrs = [] then ix_tipHash idx else blockHash (last hdrs)),
       ix_synced := (ix_synced idx \<or> hdrs \<noteq> [] \<and> length hdrs \<noteq> 2000)\<rparr>"
  by (cases idx) (simp add: indexer_OnHeaders_def fold_append_header Let_def)

lemma OnHeaders_fold:
  "fold (indexer_OnHeaders blockHash) batches idx =
   idx\<lparr>ix_headers := ix_headers idx @ concat batches,
       ix_tipHash := (if concat batches = [] then ix_tipHash idx else blockHash (last (concat batches))),
       ix_synced := (ix_synced idx \<or> (\<exists>b \<in> set batches. b \<noteq> [] \<and> length b \<noteq> 2000))\<rparr>"
  by (induction batches arbitrary: idx) (auto simp: OnHeaders_spec)

text \<open>Each header names the hash of the one before it, starting from \<open>g\<close>.\<close>

fun linked :: "('h \<Rightarrow> bytes) \<Rightarrow> ('h \<Rightarrow> bytes) \<Rightarrow> bytes \<Rightarrow> 'h list \<Rightarrow> bool" where
  "linked blockHash prevHash g [] = True"
| "linked blockHash prevHash g (h # hs) = (prevHash h = g \<and> linked blockHash prevHash (blockHash h) hs)"

definition tip_of :: "('h \<Rightarrow> bytes) \<Rightarrow> bytes \<Rightarrow> 'h list \<Rightarrow> bytes" where
  "tip_of blockHash g hs = (if hs = [] then g else blockHash (last hs))"

lemma tip_of_simps [simp]:
  "tip_of blockHash g [] = g" "tip_of blockHash g (h # hs) = tip_of blockHash (blockHash h) hs"
  by (auto simp: tip_of_def)

lemma tip_of_append [simp]:
  "tip_of blockHash g (hs @ hs') = tip_of blockHash (tip_of blockHash g hs) hs'"
  by (induction hs arbitrary: g) auto

lemma linked_append [simp]:
  "linked blockHash prevHash g (hs @ hs') \<longleftrightarrow>
   linked blockHash prevHash g hs \<and> linked blockHash prevHash (tip_of blockHash g hs) hs'"
  by (induction hs arbitrary: g) auto

text \<open>The node's chain: the headers link up from \<open>g\<close>, and the tip is the hash of the last one.\<close>

definition chain_ok :: "('h \<Rightarrow> bytes) \<Rightarrow> ('h \<Rightarrow> bytes) \<Rightarrow> bytes \<Rightarrow> ('h, 'l, 'db) indexer \<Rightarrow> bool" where
  "chain_ok blockHash prevHash g idx \<longleftrightarrow>
     linked blockHash prevHash g (ix_headers idx) \<and> ix_tipHash idx = tip_of blockHash g (ix_headers idx)"

lemma OnHeaders_chain:
  assumes "chain_ok blockHash prevHash g idx"
  shows "chain_ok blockHash prevHash g (indexer_OnHeaders blockHash hdrs idx) \<longleftrightarrow>
     linked blockHash prevHash (ix_tipHash idx) hdrs"
  using assms by (auto simp: chain_ok_def OnHeaders_spec tip_of_def [of _ "tip_of _ _ _"])

section \<open>Life cycle\<close>

text \<open>
  \<open>Stop\<close> of a started client, when it returns: the channel is closed, the lock is free, and the
  client counts as started exactly when the stop has timed out.
\<close>

inductive_cases client_Stop_NextE: "client_Stop pm (Next (e, pm'))"

lemma stop_phases_end:
  assumes "manager_inv pm" and "pm_stop pm \<noteq> StopIdle" and "a \<in> {AStopGraceful, AStopTimeout}"
    and "client_exec pm a = Next (e, pm')"
  shows "pm_done pm' \<and> pm_stop pm' = StopIdle \<and> (pm_started pm' \<longleftrightarrow> e \<noteq> None)"
  using assms
  by (auto simp: manager_inv_def client_Stop_graceful_def client_Stop_timeout_def split: if_splits)

lemma client_Stop_returns:
  assumes "reach pm" and "pm_started pm" and "client_Stop pm (Next (e, pm'))"
  shows "pm_done pm' \<and> pm_stop pm' = StopIdle \<and> (pm_started pm' \<longleftrightarrow> e \<noteq> None)"
  using assms(3)
proof (rule client_Stop_NextE)
  fix e'
  assume "client_Stop_close pm = Next (Some e', pm')"
  with assms(2) show ?thesis by (auto simp: client_Stop_close_def split: if_splits)
next
  fix pm1 as pm2 a
  assume close: "client_Stop_close pm = Next (None, pm1)" "pm_stop pm = StopIdle" and as: "client_run pm1 as = Next pm2"
    and a: "a = AStopGraceful \<or> a = AStopTimeout" "client_exec pm2 a = Next (e, pm')"
  have step: "client_exec pm AStopClose = Next (None, pm1)" using close by simp
  have "manager_inv pm2" by (rule reach_inv [OF reach_run [OF reach_step [OF assms(1) step] as]])
  moreover have "pm_stop pm2 \<noteq> StopIdle" using a by auto
  ultimately show ?thesis using a by (intro stop_phases_end) auto
qed

lemma client_Stop_started_done:
  assumes "client_Stop pm r" and "pm_stop pm = StopIdle" and "pm_started pm" and "pm_done pm"
  shows "r = Panic ''close of closed channel''"
  using assms by (cases rule: client_Stop.cases) (auto simp: client_Stop_close_def enabled_if_def)

end
