(* ===== verification/Header_Indexer.thy ===== *)
theory Header_Indexer
  imports Indexer_Inv
begin

text \<open>
  \<open>examples/headerindexer/main.go\<close>: the header indexer that completes the handlers of
  \<open>indexer/headers.go\<close> with requests, and its exchange with a peer that serves a chain in batches
  of at most 2000 headers.
\<close>

section \<open>The handlers\<close>

record 'h header_indexer =
  hi_headers :: "'h list"
  hi_tipHash :: bytes
  hi_synced :: bool
  hi_params :: chain_params

definition newHeaderIndexer :: "chain_params \<Rightarrow> 'h header_indexer" where
  "newHeaderIndexer params =
     \<lparr>hi_headers = [], hi_tipHash = cp_GenesisHash params, hi_synced = False, hi_params = params\<rparr>"

text \<open>\<open>int32(len(headers))\<close>: the conversion wraps.\<close>

definition hi_height :: "'h header_indexer \<Rightarrow> 32 word" where
  "hi_height idx = word_of_nat (length (hi_headers idx))"

definition requestHeaders :: "nat option \<Rightarrow> bytes \<Rightarrow> (nat \<times> request) list" where
  "requestHeaders peer fromHash =
     (case peer of None \<Rightarrow> [] | Some p \<Rightarrow> [(p, GetHeaders [fromHash] zero_hash)])"

text \<open>It is the function of \<open>indexer/common.go\<close>.\<close>

lemma requestHeaders_common [simp]: "requestHeaders = RequestHeaders"
  by (simp add: fun_eq_iff requestHeaders_def RequestHeaders_def)

definition hi_onPeerConnected :: "nat option \<Rightarrow> 'h header_indexer \<Rightarrow> (nat \<times> request) list" where
  "hi_onPeerConnected peer idx = requestHeaders peer (hi_tipHash idx)"

definition hi_append :: "('h \<Rightarrow> bytes) \<Rightarrow> 'h \<Rightarrow> 'h header_indexer \<Rightarrow> 'h header_indexer" where
  "hi_append blockHash hdr idx = idx\<lparr>hi_headers := hi_headers idx @ [hdr], hi_tipHash := blockHash hdr\<rparr>"

definition hi_onHeaders :: "('h \<Rightarrow> bytes) \<Rightarrow> nat option \<Rightarrow> 'h list \<Rightarrow> 'h header_indexer
    \<Rightarrow> 'h header_indexer \<times> (nat \<times> request) list" where
  "hi_onHeaders blockHash peer hdrs idx =
     (if hdrs = [] then (idx, [])
      else
        (let idx1 = fold (hi_append blockHash) hdrs idx in
         if length hdrs = 2000 then (idx1, requestHeaders peer (hi_tipHash idx1))
         else (idx1\<lparr>hi_synced := True\<rparr>, [])))"

fun has_block :: "(inv_type \<times> bytes) list \<Rightarrow> bool" where
  "has_block [] = False"
| "has_block (iv # ivs) =
     (if fst iv = InvTypeBlock \<or> fst iv = InvTypeWitnessBlock then True else has_block ivs)"

definition hi_onInv :: "nat option \<Rightarrow> (inv_type \<times> bytes) list \<Rightarrow> 'h header_indexer \<Rightarrow> (nat \<times> request) list" where
  "hi_onInv peer invs idx =
     (if \<not> has_block invs then []
      else if \<not> hi_synced idx then []
      else requestHeaders peer (hi_tipHash idx))"

lemma fold_hi_append:
  "fold (hi_append blockHash) hdrs idx =
   idx\<lparr>hi_headers := hi_headers idx @ hdrs, hi_tipHash := tip_of blockHash (hi_tipHash idx) hdrs\<rparr>"
  by (induction hdrs arbitrary: idx) (auto simp: hi_append_def)

lemma hi_onHeaders_spec:
  "hi_onHeaders blockHash peer hdrs idx =
   (idx\<lparr>hi_headers := hi_headers idx @ hdrs, hi_tipHash := tip_of blockHash (hi_tipHash idx) hdrs,
        hi_synced := (hi_synced idx \<or> hdrs \<noteq> [] \<and> length hdrs \<noteq> 2000)\<rparr>,
    if length hdrs = 2000 then RequestHeaders peer (tip_of blockHash (hi_tipHash idx) hdrs) else [])"
  by (cases idx) (auto simp: hi_onHeaders_def fold_hi_append Let_def)

section \<open>Synchronising with a peer\<close>

text \<open>
  A peer with the chain \<open>chain\<close> after the genesis block \<open>g\<close> answers a locator hash with the next
  headers, 2000 at most, as the protocol says.
\<close>

definition chain_after :: "('h \<Rightarrow> bytes) \<Rightarrow> bytes \<Rightarrow> 'h list \<Rightarrow> bytes \<Rightarrow> 'h list" where
  "chain_after blockHash g chain h =
     (if h = g then chain else tl (dropWhile (\<lambda>hdr. blockHash hdr \<noteq> h) chain))"

definition serve :: "('h \<Rightarrow> bytes) \<Rightarrow> bytes \<Rightarrow> 'h list \<Rightarrow> bytes \<Rightarrow> 'h list" where
  "serve blockHash g chain h = take 2000 (chain_after blockHash g chain h)"

lemma chain_after_tip:
  assumes "distinct (g # map blockHash (pre @ post))"
  shows "chain_after blockHash g (pre @ post) (tip_of blockHash g pre) = post"
proof (cases pre rule: rev_cases)
  case Nil
  then show ?thesis by (simp add: chain_after_def)
next
  case (snoc xs x)
  with assms have "blockHash x \<noteq> g" and xs: "\<forall>y \<in> set xs. blockHash y \<noteq> blockHash x"
    by (auto simp: image_iff)
  moreover have "dropWhile (\<lambda>hdr. blockHash hdr \<noteq> blockHash x) (xs @ x # post) = x # post"
    using xs by (simp add: dropWhile_append)
  ultimately show ?thesis by (simp add: chain_after_def snoc tip_of_def)
qed

lemma serve_next:
  "distinct (g # map blockHash (pre @ post)) \<Longrightarrow>
   serve blockHash g (pre @ post) (tip_of blockHash g pre) = take 2000 post"
  by (simp only: serve_def chain_after_tip)

text \<open>The exchange: the peer answers the first pending request; \<open>n\<close> bounds the rounds.\<close>

fun sync_with :: "nat \<Rightarrow> (bytes \<Rightarrow> 'h list) \<Rightarrow> ('h \<Rightarrow> bytes) \<Rightarrow> 'h header_indexer \<times> (nat \<times> request) list
    \<Rightarrow> 'h header_indexer \<times> (nat \<times> request) list" where
  "sync_with 0 srv blockHash st = st"
| "sync_with (Suc n) srv blockHash (idx, []) = (idx, [])"
| "sync_with (Suc n) srv blockHash (idx, (p, GetHeaders (h # hs) stop) # reqs) =
     (let (idx1, new) = hi_onHeaders blockHash (Some p) (srv h) idx
      in sync_with n srv blockHash (idx1, reqs @ new))"
| "sync_with (Suc n) srv blockHash (idx, r # reqs) = sync_with n srv blockHash (idx, reqs)"

lemma sync_with_idle [simp]: "sync_with n srv blockHash (idx, []) = (idx, [])"
  by (cases n) simp_all

lemma sync_with_serve:
  assumes "distinct (g # map blockHash (pre @ post))" and "hi_headers idx = pre"
    and "hi_tipHash idx = tip_of blockHash g pre" and "length post div 2000 < n"
  shows "sync_with n (serve blockHash g (pre @ post)) blockHash (idx, RequestHeaders (Some p) (hi_tipHash idx)) =
     (idx\<lparr>hi_headers := pre @ post, hi_tipHash := tip_of blockHash g (pre @ post),
          hi_synced := (hi_synced idx \<or> length post mod 2000 \<noteq> 0)\<rparr>, [])"
  using assms
proof (induction n arbitrary: pre post idx)
  case (Suc n)
  let ?srv = "serve blockHash g (pre @ post)"
  have srv: "?srv (tip_of blockHash g pre) = take 2000 post"
    by (rule serve_next [OF Suc.prems(1)])
  show ?case
  proof (cases "2000 \<le> length post")
    case True
    let ?idx = "idx\<lparr>hi_headers := pre @ take 2000 post,
      hi_tipHash := tip_of blockHash g (pre @ take 2000 post)\<rparr>"
    have split: "pre @ post = (pre @ take 2000 post) @ drop 2000 post" by simp
    have step: "sync_with (Suc n) ?srv blockHash (idx, RequestHeaders (Some p) (hi_tipHash idx)) =
        sync_with n ?srv blockHash (?idx, RequestHeaders (Some p) (hi_tipHash ?idx))"
      using True Suc.prems(2,3) by (simp add: RequestHeaders_def hi_onHeaders_spec srv)
    have "length (drop 2000 post) div 2000 < n"
      using Suc.prems(4) True by (simp add: le_div_geq)
    then have "sync_with n (serve blockHash g ((pre @ take 2000 post) @ drop 2000 post)) blockHash
          (?idx, RequestHeaders (Some p) (hi_tipHash ?idx)) =
        (?idx\<lparr>hi_headers := (pre @ take 2000 post) @ drop 2000 post,
              hi_tipHash := tip_of blockHash g ((pre @ take 2000 post) @ drop 2000 post),
              hi_synced := (hi_synced ?idx \<or> length (drop 2000 post) mod 2000 \<noteq> 0)\<rparr>, [])"
      by (intro Suc.IH) (use Suc.prems in \<open>simp_all add: split [symmetric] del: append_assoc\<close>)
    moreover have "length (drop 2000 post) mod 2000 = length post mod 2000"
      using True by (simp add: le_mod_geq)
    ultimately show ?thesis unfolding step split [symmetric] by simp
  next
    case False
    then show ?thesis
      using Suc.prems(2,3) by (cases idx) (simp add: RequestHeaders_def hi_onHeaders_spec srv)
  qed
qed simp

end
