(* ===== verification/Indexer_Props.thy ===== *)
theory Indexer_Props
  imports Header_Indexer
begin

text \<open>
  The properties of the indexing node and of the header indexer of the examples: construction and
  peer resolution, the life cycle, the header chain, and the synchronisation with a peer.
\<close>

section \<open>Construction\<close>

definition demo_networks :: networks where
  "demo_networks =
     \<lparr>net_MainNet = demo_params, net_SigNet = demo_params\<lparr>cp_Name := ''signet''\<rparr>,
      net_TestNet3 = demo_params\<lparr>cp_Name := ''testnet3''\<rparr>,
      net_Regression = demo_params\<lparr>cp_Name := ''regtest''\<rparr>, net_SimNet = demo_params\<lparr>cp_Name := ''simnet''\<rparr>\<rparr>"

text \<open>\<open>New\<close> fails only for nil chain parameters or a limit that is not positive, never in the
  client it builds; otherwise the node starts idle at the genesis block, with a client that has its
  chain and peer limit and no peers, and with a positive shutdown timeout.\<close>

theorem indexer_New_outcomes:
  fixes opts :: "('l, 'db) indexer_option list"
  shows "let cfg = apply_options opts (indexer_DefaultConfig nets)
   in case (indexer_New nets deflt tag opts :: indexer_error + ('h, 'l, 'db) indexer) of
       Inl e \<Rightarrow> ic_ChainParams cfg = None \<and> (\<exists>s. e = ErrUnknownNetwork s) \<or>
         ic_ChainParams cfg \<noteq> None \<and> ic_MaxPeers cfg \<le> 0 \<and> e = ErrBadMaxPeers (ic_MaxPeers cfg)
     | Inr idx \<Rightarrow> 0 < ic_MaxPeers cfg \<and> ic_ChainParams cfg = Some (the (ic_ChainParams cfg)) \<and>
         ix_tipHash idx = cp_GenesisHash (the (ic_ChainParams cfg)) \<and> ix_headers idx = [] \<and>
         \<not> ix_running idx \<and> \<not> ix_synced idx \<and> 0 < ic_ShutdownTimeout (ix_cfg idx) \<and>
         pm_maxPeers (ix_client idx) = ic_MaxPeers cfg \<and>
         pm_chainParams (ix_client idx) = ic_ChainParams cfg \<and>
         pm_peers (ix_client idx) = [] \<and> \<not> pm_started (ix_client idx) \<and> \<not> pm_done (ix_client idx)"
  by (auto simp: indexer_New_def indexer_validate_def NewBtcClient_def newPeerManager_def
      apply_options_def client_option_defs client_DefaultConfig_def client_validate_def second_def Let_def
      split: if_splits option.splits sum.splits)

text \<open>A node built for a network by name runs on that network when the name is known, and on
  mainnet, without an error, when it is not: \<open>WithNetwork\<close> ignores unknown names.\<close>

theorem indexer_network_by_name:
  fixes nets :: networks and tag :: "'l \<Rightarrow> 'l"
  shows "case (indexer_New nets deflt tag [indexer_WithNetwork nets name] :: indexer_error + ('h, 'l, 'db) indexer) of
       Inl e \<Rightarrow> False
     | Inr idx \<Rightarrow> pm_chainParams (ix_client idx) = Some
         (if name = ''signet'' then net_SigNet nets else if name = ''testnet3'' then net_TestNet3 nets
          else if name = ''regtest'' then net_Regression nets else if name = ''simnet'' then net_SimNet nets
          else net_MainNet nets)"
  by (simp add: indexer_New_def indexer_validate_def NewBtcClient_def newPeerManager_def apply_options_def
      client_option_defs client_DefaultConfig_def client_validate_def second_def Let_def
      indexer_WithNetwork_def indexer_DefaultConfig_def ResolveChainParams_def)

section \<open>Peers\<close>

text \<open>C32. \<open>resolvePeers\<close> gives each address once: the explicit peers first, in their order of first
  occurrence, then the seed addresses that are not among them.\<close>

theorem resolvePeers_outcome:
  "let seeds = map (\<lambda>seed. seed @ '':'' @ cp_DefaultPort params) (cp_DNSSeeds params);
       ps = resolvePeers peers params
   in distinct ps \<and> set ps = set peers \<union> set seeds \<and>
      ps = first_occs {} peers @ first_occs (set peers) seeds \<and> subseq ps (peers @ seeds)"
  unfolding Let_def resolvePeers_first_occs
  by (auto simp: first_occs_append intro!: list_emb_append_mono subseq_first_occs)

text \<open>\<open>connectPeers\<close> fails with \<open>ErrNoPeers\<close> when nothing resolves and otherwise only when every
  single address was refused. On a client without peers it never fails when there is an address: it
  registers as many addresses as the limit allows, in order, and those beyond it are refused.\<close>

theorem connectPeers_outcome:
  assumes "connectPeers cancelled idx = (e, idx')"
  shows "(e = Some ErrNoPeers \<longleftrightarrow> indexer_peers idx = []) \<and>
     (indexer_peers idx \<noteq> [] \<longrightarrow>
       (e = None \<longleftrightarrow> length (pm_peers (ix_client idx)) < length (pm_peers (ix_client idx')))) \<and>
     (pm_peers (ix_client idx) = [] \<and> 0 < pm_maxPeers (ix_client idx) \<and> indexer_peers idx \<noteq> [] \<longrightarrow>
       e = None \<and>
       map fst (pm_peers (ix_client idx')) = take (nat (pm_maxPeers (ix_client idx))) (indexer_peers idx))"
proof -
  let ?ps = "indexer_peers idx" and ?c = "ix_client idx"
  let ?r = "connect_loop (addPeer cancelled) ?ps ?c"
  have r: "e = connect_result ?ps (fst ?r)" "ix_client idx' = snd ?r"
    using assms by (auto simp: connectPeers_def case_prod_beta Let_def)
  have n: "length (fst ?r) + length (pm_peers (snd ?r)) = length ?ps + length (pm_peers ?c)"
    using p2p.connect_counts [of cancelled ?ps ?c] by simp
  have "pm_peers ?c = [] \<Longrightarrow> 0 < pm_maxPeers ?c \<Longrightarrow> ?ps \<noteq> [] \<Longrightarrow>
      e = None \<and> map fst (pm_peers (snd ?r)) = take (nat (pm_maxPeers ?c)) ?ps"
    using p2p.connect_fresh [of ?c ?ps cancelled] by (simp add: r(1))
  moreover have "length (pm_peers ?c) \<le> length (pm_peers (snd ?r))"
    using arg_cong [OF conjunct1 [OF p2p.connect_adds [of cancelled ?ps ?c]], of length] by simp
  ultimately show ?thesis
    using n by (auto simp: r connect_result_def split: if_splits)
qed

definition demo_indexer :: "string list \<Rightarrow> (nat, unit, unit) indexer" where
  "demo_indexer peers =
     \<lparr>ix_cfg = (indexer_DefaultConfig demo_networks)\<lparr>ic_Peers := peers\<rparr>, ix_client = demo_client 3,
      ix_tipHash = [0], ix_headers = [], ix_running = False, ix_synced = False\<rparr>"

lemmas demo_indexer_simps = demo_indexer_def indexer_DefaultConfig_def demo_networks_def demo_params_def
  indexer_peers_def resolvePeers_def

lemma connectPeers_outcome_witness:
  "map fst (pm_peers (ix_client (snd (connectPeers False (demo_indexer [''a'', ''b'', ''a'']))))) = [''a'', ''b'']"
proof -
  let ?idx = "demo_indexer [''a'', ''b'', ''a'']"
  obtain e idx' where c: "connectPeers False ?idx = (e, idx')" by force
  have "indexer_peers ?idx = [''a'', ''b'', ''seed:8333'']" "pm_peers (ix_client ?idx) = []"
    "pm_maxPeers (ix_client ?idx) = 2"
    by (simp_all add: demo_indexer_simps demo_client_def newPeerManager_def client_DefaultConfig_def)
  with connectPeers_outcome [OF c] c show ?thesis by simp
qed

section \<open>Life cycle\<close>

text \<open>\<open>Start\<close> on a running node and \<open>Stop\<close> on one that is not running are refused and change
  nothing. When \<open>Stop\<close> returns, the node is not running; when it returns nil, every goroutine of
  the client has ended.\<close>

theorem indexer_lifecycle:
  assumes "reach (ix_client idx)" and "ix_running idx" and "client_Stop (ix_client idx) r"
    and "indexer_Stop r idx = Next (e, idx')"
  shows "indexer_Start idx = (Some ErrAlreadyRunning, idx) \<and> \<not> ix_running idx' \<and>
     indexer_Stop r' idx' = Next (Some ErrNotRunning, idx') \<and>
     ix_headers idx' = ix_headers idx \<and> ix_tipHash idx' = ix_tipHash idx \<and>
     (e = None \<longrightarrow> (\<forall>ob \<in> set (pm_objs (ix_client idx')). po_pc ob = L_Exited))"
proof -
  obtain ce pm where r: "r = Next (ce, pm)" and idx': "idx' = idx\<lparr>ix_client := pm, ix_running := False\<rparr>"
    and e: "e = map_option ErrShutdownFailed ce"
    using assms(2,4) by (auto simp: indexer_Stop_def Let_def split: outcome.splits option.splits)
  have "\<forall>ob \<in> set (pm_objs pm). po_pc ob = L_Exited" if "ce = None"
    using assms(3) unfolding r that
  proof (cases rule: client_Stop.cases)
    case (stop_ends pm1 as pm2 a)
    then have a: "client_exec pm2 AStopGraceful = Next (None, pm)" by (auto simp: client_Stop_timeout_def)
    have "reach pm2"
      by (rule reach_run [OF reach_step [OF assms(1) stop_ends(1)] stop_ends(2)])
    from graceful_stop(4) [OF reach_inv [OF this] a] show ?thesis .
  qed
  with assms(2) show ?thesis by (auto simp: indexer_Start_def indexer_Stop_def idx' e)
qed

text \<open>C31. A node is good for one run. After its \<open>Stop\<close> has returned, \<open>Run\<close> fails in \<open>Start\<close> when that
  stop had timed out; otherwise it gets to its own call of \<open>Stop\<close>, whatever the goroutines do until
  then, and that call panics.\<close>

theorem indexer_second_run_panics:
  assumes "reach (ix_client idx0)" and "pm_started (ix_client idx0)" and "ix_running idx0"
    and "client_Stop (ix_client idx0) (Next (ce, pm0))" and "indexer_Stop (Next (ce, pm0)) idx0 = Next (e0, idx)"
    and "indexer_Run cancelled idx = (phase, idx')"
    and "client_run (ix_client idx') as = Next pm" and "pm_stop pm = StopIdle" and "pm_started pm"
    and "client_Stop pm r"
  shows "if ce \<noteq> None
     then phase = RunReturns (Some (ErrStartClient ErrClientAlreadyStarted))
     else (\<exists>e. phase = RunStops e) \<and> ix_running idx' \<and>
       indexer_Stop r (idx'\<lparr>ix_client := pm\<rparr>) = Panic ''close of closed channel''"
proof -
  have idx: "ix_client idx = pm0" "\<not> ix_running idx"
    using assms(3,5) by (auto simp: indexer_Stop_def Let_def split: option.splits)
  have pm0: "pm_done pm0" "pm_started pm0 \<longleftrightarrow> ce \<noteq> None"
    using client_Stop_returns [OF assms(1,2,4)] by blast+
  show ?thesis
  proof (cases "ce = None")
    case False
    with pm0 idx assms(6) show ?thesis by (simp add: indexer_Run_def indexer_Start_def client_Start_def)
  next
    case True
    have add_done: "pm_done (snd (connect_loop (addPeer cancelled) addrs c)) = pm_done c" for addrs c
      by (induction addrs arbitrary: c) (auto simp: case_prod_beta addPeer_def spawn_peer_def)
    obtain e where phase: "phase = RunStops e" and run: "ix_running idx'" and d: "pm_done (ix_client idx')"
      using pm0 idx assms(6) True
      by (auto simp: indexer_Run_def indexer_Start_def client_Start_def connectPeers_def case_prod_beta Let_def
          add_done)
    have "pm_done pm" using assms(7) d by (rule run_done)
    then have "r = Panic ''close of closed channel''"
      using client_Stop_started_done [OF assms(10,8,9)] by simp
    with True phase run show ?thesis by (simp add: indexer_Stop_def)
  qed
qed

text \<open>A client that has been started and then stopped.\<close>

definition demo_started :: manager where
  "demo_started = state_of (client_run (demo_client 3) [AStart])"

definition demo_stopped :: manager where
  "demo_stopped = (demo_client 3)\<lparr>pm_done := True\<rparr>"

lemma demo_started_reach: "reach demo_started"
  unfolding demo_started_def by (rule demo_run_reach) (simp, code_simp)

lemma demo_Stop: "client_Stop demo_started (Next (None, demo_stopped))"
proof -
  have "client_exec demo_started AStopClose = Next (None, demo_started\<lparr>pm_done := True, pm_stop := StopCancelling\<rparr>)"
    by (simp add: demo_simps demo_started_def)
  then show ?thesis
    by (rule stop_ends [where as = "[AStopCancel, AHealthExit]" and a = AStopGraceful
          and ?pm2.0 = "demo_stopped\<lparr>pm_started := True, pm_stop := StopWaiting\<rparr>"])
       (simp_all add: demo_simps demo_started_def demo_stopped_def client_Stop_graceful_def)
qed

definition demo_running :: "(nat, unit, unit) indexer" where
  "demo_running = (demo_indexer [''a''])\<lparr>ix_client := demo_started, ix_running := True\<rparr>"

lemma demo_running_Stop:
  "indexer_Stop (Next (None, demo_stopped)) demo_running = Next (None, (demo_indexer [''a''])\<lparr>ix_client := demo_stopped\<rparr>)"
  by (simp add: indexer_Stop_def demo_running_def demo_indexer_def)

lemma demo_running_fields:
  "ix_running demo_running" "reach (ix_client demo_running)" "pm_started (ix_client demo_running)"
  "client_Stop (ix_client demo_running) (Next (None, demo_stopped))"
  using demo_started_reach demo_Stop by (simp_all add: demo_running_def) (simp add: demo_started_def demo_simps)

lemma indexer_lifecycle_witness:
  "\<forall>r'. indexer_Stop r' ((demo_indexer [''a''])\<lparr>ix_client := demo_stopped\<rparr>) =
     Next (Some ErrNotRunning, (demo_indexer [''a''])\<lparr>ix_client := demo_stopped\<rparr>)"
proof
  fix r' :: "(client_error option \<times> manager) outcome"
  from indexer_lifecycle [OF demo_running_fields(2,1,4) demo_running_Stop, of r']
  show "indexer_Stop r' ((demo_indexer [''a''])\<lparr>ix_client := demo_stopped\<rparr>) =
      Next (Some ErrNotRunning, (demo_indexer [''a''])\<lparr>ix_client := demo_stopped\<rparr>)" by simp
qed

lemma indexer_second_run_panics_witness:
  "\<exists>phase idx'. indexer_Run False ((demo_indexer [''a''])\<lparr>ix_client := demo_stopped\<rparr>) = (phase, idx') \<and>
     indexer_Stop (Panic ''close of closed channel'') idx' = Panic ''close of closed channel''"
proof -
  let ?idx = "(demo_indexer [''a''])\<lparr>ix_client := demo_stopped\<rparr>"
  obtain phase idx' where run: "indexer_Run False ?idx = (phase, idx')" by force
  have idx': "pm_stop (ix_client idx') = StopIdle" "pm_started (ix_client idx')" "pm_done (ix_client idx')"
    using run by (auto simp: indexer_Run_def indexer_Start_def connectPeers_def Let_def demo_indexer_simps
        demo_stopped_def demo_simps)
  then have "client_Stop (ix_client idx') (Panic ''close of closed channel'')"
    by (intro stop_panic) (simp add: enabled_if_def client_Stop_close_def)
  from indexer_second_run_panics [OF demo_running_fields(2,3,1,4) demo_running_Stop run client_run.simps(1) idx'(1,2) this]
  show ?thesis using run by simp
qed

section \<open>The header chain\<close>

text \<open>After any sequence of \<open>headers\<close> messages the node holds their concatenation, its tip is the
  hash of the last header (the old tip when there is none), and it is synced if it was before or some
  message held a number of headers other than 0 and 2000.\<close>

theorem headers_accumulate:
  "let idx' = fold (indexer_OnHeaders blockHash) batches idx; hdrs = concat batches
   in ix_headers idx' = ix_headers idx @ hdrs \<and>
      ix_tipHash idx' = (if hdrs = [] then ix_tipHash idx else blockHash (last hdrs)) \<and>
      (ix_synced idx' \<longleftrightarrow> ix_synced idx \<or> (\<exists>b \<in> set batches. length b \<notin> {0, 2000})) \<and>
      ix_running idx' = ix_running idx \<and> ix_client idx' = ix_client idx"
  by (auto simp: Let_def OnHeaders_fold)

text \<open>C33. \<open>OnHeaders\<close> keeps the chain linked from the genesis block to the tip exactly when the message
  continues the tip, which it does not check: a message that is delivered twice, as when two peers
  answer, breaks the chain.\<close>

theorem headers_chain_linked:
  assumes "chain_ok blockHash prevHash g idx"
  shows "(chain_ok blockHash prevHash g (indexer_OnHeaders blockHash hdrs idx) \<longleftrightarrow>
       linked blockHash prevHash (ix_tipHash idx) hdrs) \<and>
     (hdrs \<noteq> [] \<longrightarrow> blockHash (last hdrs) \<noteq> ix_tipHash idx \<longrightarrow>
       \<not> chain_ok blockHash prevHash g (indexer_OnHeaders blockHash hdrs (indexer_OnHeaders blockHash hdrs idx)))"
proof -
  let ?idx = "indexer_OnHeaders blockHash hdrs idx"
  have once: "chain_ok blockHash prevHash g ?idx \<longleftrightarrow> linked blockHash prevHash (ix_tipHash idx) hdrs"
    by (rule OnHeaders_chain [OF assms])
  moreover have "\<not> chain_ok blockHash prevHash g (indexer_OnHeaders blockHash hdrs ?idx)"
    if "hdrs \<noteq> []" "blockHash (last hdrs) \<noteq> ix_tipHash idx"
  proof
    assume twice: "chain_ok blockHash prevHash g (indexer_OnHeaders blockHash hdrs ?idx)"
    then have "chain_ok blockHash prevHash g ?idx"
      by (auto simp: chain_ok_def OnHeaders_spec tip_of_def)
    with twice OnHeaders_chain have "linked blockHash prevHash (ix_tipHash ?idx) hdrs" by blast
    with once \<open>chain_ok blockHash prevHash g ?idx\<close> that show False
      by (cases hdrs) (auto simp: OnHeaders_spec)
  qed
  ultimately show ?thesis by blast
qed

lemma headers_chain_linked_witness:
  "chain_ok (\<lambda>h. [word_of_nat h]) (\<lambda>h. [word_of_nat (h - 1)]) [0]
     (indexer_OnHeaders (\<lambda>h. [word_of_nat h]) [1, 2] (demo_indexer []))"
proof -
  have "chain_ok (\<lambda>h. [word_of_nat h]) (\<lambda>h. [word_of_nat (h - 1)]) [0] (demo_indexer [])"
    by (simp add: chain_ok_def demo_indexer_def)
  from headers_chain_linked [OF this, of "[1, 2]"] show ?thesis by (simp add: demo_indexer_def)
qed

section \<open>Synchronising\<close>

text \<open>The header indexer that connects to a peer with a chain of distinct hashes asks for it in
  batches and ends, within one round more than the number of full batches, with exactly that chain,
  its last hash as tip, and no request open; it counts itself synced exactly when the length of the
  chain is not a multiple of 2000.\<close>

theorem header_sync_completes:
  fixes chain :: "'h list"
  assumes "distinct (cp_GenesisHash params # map blockHash chain)" and "length chain div 2000 < n"
  shows "let idx = newHeaderIndexer params;
       (idx', reqs) = sync_with n (serve blockHash (cp_GenesisHash params) chain) blockHash
                        (idx, hi_onPeerConnected (Some p) idx)
     in hi_headers idx' = chain \<and> hi_tipHash idx' = tip_of blockHash (cp_GenesisHash params) chain \<and>
        reqs = [] \<and> (hi_synced idx' \<longleftrightarrow> length chain mod 2000 \<noteq> 0)"
  using sync_with_serve [of "cp_GenesisHash params" blockHash "[]" chain "newHeaderIndexer params" n p] assms
  by (simp add: hi_onPeerConnected_def newHeaderIndexer_def)

lemma header_sync_completes_witness:
  "let idx = newHeaderIndexer demo_params
   in hi_synced (fst (sync_with 1 (serve (\<lambda>h. [h]) [0] [1, 2]) (\<lambda>h. [h]) (idx, hi_onPeerConnected (Some 0) idx)))"
proof -
  have "distinct (cp_GenesisHash demo_params # map (\<lambda>h. [h]) [1, 2])" "length [1, 2 :: byte] div 2000 < 1"
    by (simp_all add: demo_params_def)
  from header_sync_completes [OF this, of 0] show ?thesis
    by (simp add: Let_def case_prod_beta demo_params_def)
qed

text \<open>C35. After synchronising with a chain whose length is a multiple of 2000 the header indexer
  ignores every block announcement; after any other it asks for the headers that follow its tip.\<close>

theorem announcements_after_sync:
  fixes chain :: "'h list"
  assumes "distinct (cp_GenesisHash params # map blockHash chain)" and "length chain div 2000 < n"
    and "\<exists>iv \<in> set invs. fst iv \<in> {InvTypeBlock, InvTypeWitnessBlock}"
  shows "let idx = newHeaderIndexer params;
       idx' = fst (sync_with n (serve blockHash (cp_GenesisHash params) chain) blockHash
                     (idx, hi_onPeerConnected (Some p) idx))
     in hi_onInv (Some q) invs idx' =
        (if length chain mod 2000 = 0 then []
         else [(q, GetHeaders [tip_of blockHash (cp_GenesisHash params) chain] zero_hash)])"
proof -
  have "has_block invs" using assms(3) by (induction invs) auto
  then show ?thesis
    using sync_with_serve [of "cp_GenesisHash params" blockHash "[]" chain "newHeaderIndexer params" n p] assms(1,2)
    by (simp add: hi_onPeerConnected_def newHeaderIndexer_def hi_onInv_def RequestHeaders_def)
qed

lemma announcements_after_sync_witness:
  "let idx = newHeaderIndexer demo_params
   in hi_onInv (Some 0) [(InvTypeBlock, [])]
        (fst (sync_with 1 (serve (\<lambda>h. [h]) [0] []) (\<lambda>h. [h]) (idx, hi_onPeerConnected (Some 0) idx))) = []"
proof -
  have "distinct (cp_GenesisHash demo_params # map (\<lambda>h. [h]) [])" "length ([] :: byte list) div 2000 < 1" by simp_all
  from announcements_after_sync [OF this, of "[(InvTypeBlock, [])]" 0 0] show ?thesis
    by (simp add: Let_def demo_params_def)
qed

end
