(* ===== verification/Header_Net.thy ===== *)
theory Header_Net
  imports Header_Indexer
begin

text \<open>
  The header indexer with any number of peers. Requests are messages in flight; peers connect, answer
  and announce blocks in any order, and requests get lost when a connection drops. The handlers run
  under the indexer's mutex, so each is one step. All peers serve the same chain.
\<close>

section \<open>The network\<close>

record 'h header_net =
  hn_idx :: "'h header_indexer"
  hn_reqs :: "(nat \<times> request) list"

text \<open>\<open>HnAnswer i\<close>: the answer to the request at position \<open>i\<close> arrives; \<open>HnLost i\<close>: it never does.\<close>

datatype net_action =
    HnConnect nat
  | HnAnswer nat
  | HnInv nat "(inv_type \<times> bytes) list"
  | HnLost nat

definition remove_at :: "nat \<Rightarrow> 'a list \<Rightarrow> 'a list" where
  "remove_at i xs = take i xs @ drop (Suc i) xs"

fun hn_exec :: "('h \<Rightarrow> bytes) \<Rightarrow> (bytes \<Rightarrow> 'h list) \<Rightarrow> 'h header_net \<Rightarrow> net_action \<Rightarrow> 'h header_net option" where
  "hn_exec blockHash srv st (HnConnect p) =
     Some (st\<lparr>hn_reqs := hn_reqs st @ hi_onPeerConnected (Some p) (hn_idx st)\<rparr>)"
| "hn_exec blockHash srv st (HnAnswer i) =
     (if i < length (hn_reqs st) then
        (case hn_reqs st ! i of
           (p, GetHeaders (h # hs) stop) \<Rightarrow>
             (let (idx, new) = hi_onHeaders blockHash (Some p) (srv h) (hn_idx st)
              in Some \<lparr>hn_idx = idx, hn_reqs = remove_at i (hn_reqs st) @ new\<rparr>)
         | _ \<Rightarrow> None)
      else None)"
| "hn_exec blockHash srv st (HnInv p invs) =
     Some (st\<lparr>hn_reqs := hn_reqs st @ hi_onInv (Some p) invs (hn_idx st)\<rparr>)"
| "hn_exec blockHash srv st (HnLost i) =
     (if i < length (hn_reqs st) then Some (st\<lparr>hn_reqs := remove_at i (hn_reqs st)\<rparr>) else None)"

fun hn_run :: "('h \<Rightarrow> bytes) \<Rightarrow> (bytes \<Rightarrow> 'h list) \<Rightarrow> 'h header_net \<Rightarrow> net_action list \<Rightarrow> 'h header_net option" where
  "hn_run blockHash srv st [] = Some st"
| "hn_run blockHash srv st (a # as) =
     (case hn_exec blockHash srv st a of None \<Rightarrow> None | Some st' \<Rightarrow> hn_run blockHash srv st' as)"

definition new_net :: "chain_params \<Rightarrow> 'h header_net" where
  "new_net params = \<lparr>hn_idx = newHeaderIndexer params, hn_reqs = []\<rparr>"

text \<open>Steps that make a request of their own, and answers.\<close>

definition asks :: "net_action list \<Rightarrow> nat" where
  "asks as = length (filter (\<lambda>a. case a of HnConnect p \<Rightarrow> True | HnInv p invs \<Rightarrow> True | _ \<Rightarrow> False) as)"

definition answers :: "net_action list \<Rightarrow> nat" where
  "answers as = length (filter (\<lambda>a. case a of HnAnswer i \<Rightarrow> True | _ \<Rightarrow> False) as)"

section \<open>Batches and prefixes\<close>

lemma set_remove_at: "i < length xs \<Longrightarrow> set xs = insert (xs ! i) (set (remove_at i xs))"
  by (subst id_take_nth_drop) (auto simp: remove_at_def)

lemma sum_list_remove_at:
  "i < length xs \<Longrightarrow> sum_list (map f xs) = f (xs ! i) + sum_list (map f (remove_at i xs) :: nat list)"
  by (subst id_take_nth_drop) (auto simp: remove_at_def)

text \<open>A batch that starts within the prefix held extends it without a gap.\<close>

lemma first_occs_batch:
  assumes "distinct chain" and "j \<le> m" and "m \<le> length chain" and "first_occs {} hs = take m chain"
  shows "first_occs {} (hs @ take k (drop j chain)) = take (max m (min (length chain) (j + k))) chain"
proof -
  let ?b = "take k (drop j chain)"
  have new: "first_occs A b = filter (\<lambda>x. x \<notin> A) b" if "distinct b" for A and b :: "'a list"
    using that by (induction b arbitrary: A) (auto intro!: filter_cong)
  have hs: "set hs = set (take m chain)" using assms(4) set_first_occs [of "{}" hs] by simp
  have "?b = take (m - j) ?b @ drop (m - j) ?b" by (rule append_take_drop_id [symmetric])
  moreover have "filter (\<lambda>x. x \<notin> set hs) (take (m - j) ?b) = []"
  proof -
    have "take (m - j) ?b = take k (drop j (take m chain))"
      using assms(2) by (simp add: take_drop min.commute add.commute)
    then show ?thesis unfolding hs by (auto simp: filter_empty_conv dest: in_set_takeD in_set_dropD)
  qed
  moreover have "filter (\<lambda>x. x \<notin> set hs) (drop (m - j) ?b) = drop (m - j) ?b"
  proof -
    have "drop (m - j) ?b = take (k - (m - j)) (drop m chain)"
      using assms(2) by (simp add: drop_take)
    moreover have "set (take m chain) \<inter> set (drop m chain) = {}"
      using assms(1) by (rule set_take_disj_set_drop_if_distinct) simp
    ultimately show ?thesis unfolding hs by (auto simp: filter_id_conv dest: in_set_takeD)
  qed
  ultimately have "filter (\<lambda>x. x \<notin> set hs) ?b = drop (m - j) ?b"
    by (metis filter_append append_Nil)
  moreover have "distinct ?b" using assms(1) by simp
  ultimately have "first_occs {} (hs @ ?b) = take m chain @ drop (m - j) ?b"
    using assms(4) by (simp add: first_occs_append new)
  also have "drop (m - j) ?b = take (k - (m - j)) (drop m chain)"
    using assms(2) by (simp add: drop_take)
  also have "take m chain @ \<dots> = take (m + (k - (m - j))) chain" by (simp add: take_add)
  also have "\<dots> = take (max m (min (length chain) (j + k))) chain"
    using assms(2,3) by (cases "j + k \<le> m") (auto simp: max_def min_def add.commute)
  finally show ?thesis .
qed

section \<open>The invariant\<close>

text \<open>The tip of an indexer that holds the first \<open>j\<close> headers of the chain.\<close>

abbreviation hash_at :: "('h \<Rightarrow> bytes) \<Rightarrow> bytes \<Rightarrow> 'h list \<Rightarrow> nat \<Rightarrow> bytes" where
  "hash_at blockHash g chain j \<equiv> tip_of blockHash g (take j chain)"

definition request_at :: "('h \<Rightarrow> bytes) \<Rightarrow> bytes \<Rightarrow> 'h list \<Rightarrow> nat \<Rightarrow> nat \<times> request \<Rightarrow> bool" where
  "request_at blockHash g chain m r \<longleftrightarrow>
     (\<exists>p. \<exists>j \<le> m. r = (p, GetHeaders [hash_at blockHash g chain j] zero_hash))"

text \<open>
  \<open>m\<close> headers are held, without a gap; tip and requests point into that part; a synced indexer holds
  all. The flag \<open>c\<close> says that a request was made and none lost since: then the tip is the end of
  the chain, or a request for what follows the tip is in flight.
\<close>

definition hn_inv :: "('h \<Rightarrow> bytes) \<Rightarrow> bytes \<Rightarrow> 'h list \<Rightarrow> bool \<Rightarrow> nat \<Rightarrow> 'h header_net \<Rightarrow> bool" where
  "hn_inv blockHash g chain c m st \<longleftrightarrow>
     m \<le> length chain \<and> first_occs {} (hi_headers (hn_idx st)) = take m chain \<and>
     (\<exists>k \<le> m. hi_tipHash (hn_idx st) = hash_at blockHash g chain k) \<and>
     list_all (request_at blockHash g chain m) (hn_reqs st) \<and>
     (hi_synced (hn_idx st) \<longrightarrow> m = length chain) \<and>
     (c \<longrightarrow> hi_tipHash (hn_idx st) = tip_of blockHash g chain \<or>
        (\<exists>p. (p, GetHeaders [hi_tipHash (hn_idx st)] zero_hash) \<in> set (hn_reqs st)))"

definition req_cost :: "('h \<Rightarrow> bytes) \<Rightarrow> bytes \<Rightarrow> 'h list \<Rightarrow> nat \<times> request \<Rightarrow> nat" where
  "req_cost blockHash g chain = (\<lambda>(p, r).
     case r of GetHeaders (h # hs) stop \<Rightarrow> Suc (length (chain_after blockHash g chain h) div 2000) | _ \<Rightarrow> 0)"

definition net_cost :: "('h \<Rightarrow> bytes) \<Rightarrow> bytes \<Rightarrow> 'h list \<Rightarrow> 'h header_net \<Rightarrow> nat" where
  "net_cost blockHash g chain st = sum_list (map (req_cost blockHash g chain) (hn_reqs st))"

lemma request_at_mono: "request_at blockHash g chain m r \<Longrightarrow> m \<le> m' \<Longrightarrow> request_at blockHash g chain m' r"
  unfolding request_at_def by (elim exE conjE) (intro exI conjI; assumption?; auto)

lemma requests_mono:
  "list_all (request_at blockHash g chain m) rs \<Longrightarrow> m \<le> m' \<Longrightarrow> list_all (request_at blockHash g chain m') rs"
  by (auto simp: list_all_iff intro: request_at_mono)

lemma requests_remove_at: "list_all P xs \<Longrightarrow> list_all P (remove_at i xs)"
  by (auto simp: list_all_iff remove_at_def dest: in_set_takeD in_set_dropD)

text \<open>The tip after a batch that is not empty.\<close>

lemma tip_of_batch:
  "take k (drop j chain) \<noteq> [] \<Longrightarrow> tip_of blockHash h (take k (drop j chain)) = hash_at blockHash g chain (j + k)"
  by (simp add: take_add) (simp add: tip_of_def)

lemma after_hash_at:
  assumes "distinct (g # map blockHash chain)"
  shows "chain_after blockHash g chain (hash_at blockHash g chain j) = drop j chain"
  using chain_after_tip [of g blockHash "take j chain" "drop j chain"] assms by simp

lemma request_cost_at:
  assumes "distinct (g # map blockHash chain)"
  shows "req_cost blockHash g chain (p, GetHeaders [hash_at blockHash g chain j] stop) =
     Suc ((length chain - j) div 2000)"
  by (simp add: req_cost_def after_hash_at [OF assms])

fun live_sync :: "bool \<Rightarrow> net_action \<Rightarrow> bool" where
  "live_sync c (HnConnect p) = True"
| "live_sync c (HnLost i) = False"
| "live_sync c _ = c"

section \<open>Every step keeps it\<close>

lemma inv_ask:
  assumes "hn_inv blockHash g chain c m st"
  shows "hn_inv blockHash g chain True m (st\<lparr>hn_reqs := hn_reqs st @ [(p, GetHeaders [hi_tipHash (hn_idx st)] zero_hash)]\<rparr>)"
  using assms by (auto simp: hn_inv_def request_at_def)

lemma inv_lost:
  "hn_inv blockHash g chain c m st \<Longrightarrow> hn_inv blockHash g chain False m (st\<lparr>hn_reqs := remove_at i (hn_reqs st)\<rparr>)"
  by (simp add: hn_inv_def requests_remove_at)

lemma inv_weaken: "hn_inv blockHash g chain True m st \<Longrightarrow> hn_inv blockHash g chain c m st"
  by (auto simp: hn_inv_def)

text \<open>The answer to a request for what follows the first \<open>j\<close> headers.\<close>

lemma inv_answer:
  fixes chain :: "'h list"
  assumes d: "distinct (g # map blockHash chain)" and inv: "hn_inv blockHash g chain c m st"
    and i: "i < length (hn_reqs st)"
    and r: "hn_reqs st ! i = (p, GetHeaders [hash_at blockHash g chain j] zero_hash)" and j: "j \<le> m"
    and new: "hi_onHeaders blockHash (Some p) (take 2000 (drop j chain)) (hn_idx st) = (idx, new)"
  shows "hn_inv blockHash g chain c (max m (min (length chain) (j + 2000)))
     \<lparr>hn_idx = idx, hn_reqs = remove_at i (hn_reqs st) @ new\<rparr>"
proof -
  let ?b = "take 2000 (drop j chain)" and ?m = "max m (min (length chain) (j + 2000))"
  let ?tip = "hash_at blockHash g chain"
  have m: "m \<le> length chain" and held: "first_occs {} (hi_headers (hn_idx st)) = take m chain"
    and reqs: "list_all (request_at blockHash g chain m) (hn_reqs st)"
    using inv by (simp_all add: hn_inv_def)
  have held': "first_occs {} (hi_headers (hn_idx st) @ ?b) = take ?m chain"
    by (rule first_occs_batch [OF _ j m held]) (use d in \<open>simp add: distinct_map\<close>)
  have rest: "list_all (request_at blockHash g chain ?m) (remove_at i (hn_reqs st))"
    by (rule requests_mono [OF requests_remove_at [OF reqs]]) simp
  note set_i = set_remove_at [OF i, unfolded r]
  show ?thesis
  proof (cases "?b = []")
    case True
    then have jn: "j = length chain" using j m by simp
    with True new have "idx = hn_idx st" "new = []" by (simp_all add: hi_onHeaders_def)
    moreover have "?m = m" using jn j m by simp
    ultimately show ?thesis
      using inv requests_remove_at [OF reqs] set_i jn by (auto simp: hn_inv_def)
  next
    case False
    then have j': "j < length chain" by auto
    have tip: "tip_of blockHash (hi_tipHash (hn_idx st)) ?b = ?tip (min (length chain) (j + 2000))"
      using tip_of_batch [OF False] by (metis min.commute take_all_iff linorder_le_cases min.absorb1 min.absorb2 order_refl)
    have k: "min (length chain) (j + 2000) \<le> ?m" by simp
    show ?thesis
    proof (cases "length ?b = 2000")
      case True
      then have "min (length chain) (j + 2000) = j + 2000" by auto
      with True False new tip
      have f: "hi_headers idx = hi_headers (hn_idx st) @ ?b" "hi_tipHash idx = ?tip (min (length chain) (j + 2000))"
        "hi_synced idx = hi_synced (hn_idx st)"
        "new = [(p, GetHeaders [?tip (min (length chain) (j + 2000))] zero_hash)]"
        by (auto simp: hi_onHeaders_spec RequestHeaders_def)
      have "request_at blockHash g chain ?m (p, GetHeaders [?tip (min (length chain) (j + 2000))] zero_hash)"
        unfolding request_at_def using k by blast
      moreover have "hi_synced idx \<longrightarrow> ?m = length chain" using f(3) inv m by (auto simp: hn_inv_def)
      moreover have "\<exists>k' \<le> ?m. hi_tipHash idx = ?tip k'" using f(2) k by blast
      ultimately show ?thesis
        using held' rest m f(1,2,4) by (simp add: hn_inv_def) blast
    next
      case short: False
      then have "min (length chain) (j + 2000) = length chain" "?m = length chain" using j' m by auto
      with short False new tip held' rest show ?thesis
        by (auto simp: hi_onHeaders_spec hn_inv_def)
    qed
  qed
qed

lemma cost_ask:
  assumes "distinct (g # map blockHash chain)" and "hn_inv blockHash g chain c m st"
  shows "req_cost blockHash g chain (p, GetHeaders [hi_tipHash (hn_idx st)] zero_hash) \<le> Suc (length chain div 2000)"
  using assms(2) by (auto simp: hn_inv_def request_cost_at [OF assms(1)] intro!: div_le_mono)

text \<open>An answer either ends its chain of requests or moves it on by a batch.\<close>

lemma cost_answer:
  assumes "distinct (g # map blockHash chain)"
    and "hi_onHeaders blockHash (Some p) (take 2000 (drop j chain)) idx = (idx', new)"
  shows "sum_list (map (req_cost blockHash g chain) new) < req_cost blockHash g chain (q, GetHeaders [hash_at blockHash g chain j] stop)"
proof (cases "length (take 2000 (drop j chain)) = 2000")
  case True
  then have "take 2000 (drop j chain) \<noteq> []" "j + 2000 \<le> length chain" by auto
  note tip = tip_of_batch [OF this(1), of blockHash "hi_tipHash idx" g]
  have "new = [(p, GetHeaders [hash_at blockHash g chain (j + 2000)] zero_hash)]"
    using assms(2) unfolding hi_onHeaders_spec tip using True by (simp add: RequestHeaders_def)
  moreover have "(length chain - j) div 2000 = Suc ((length chain - (j + 2000)) div 2000)"
    using \<open>j + 2000 \<le> length chain\<close> by (simp add: le_div_geq)
  ultimately show ?thesis by (simp add: request_cost_at [OF assms(1)])
next
  case False
  with assms(2) have "new = []" by (auto simp: hi_onHeaders_spec)
  then show ?thesis by (simp add: req_cost_def)
qed

lemma ask_counts [simp]:
  "asks [HnConnect p] = 1" "asks [HnInv p invs] = 1" "asks [HnAnswer i] = 0" "asks [HnLost i] = 0"
  "answers [HnConnect p] = 0" "answers [HnInv p invs] = 0" "answers [HnAnswer i] = 1" "answers [HnLost i] = 0"
  "asks [] = 0" "answers [] = 0"
  by (simp_all add: asks_def answers_def)

lemma counts_Cons: "asks (a # as) = asks [a] + asks as" "answers (a # as) = answers [a] + answers as"
  by (simp_all add: asks_def answers_def)

lemma hn_exec_step:
  assumes d: "distinct (g # map blockHash chain)" and inv: "hn_inv blockHash g chain c m st"
    and ex: "hn_exec blockHash (serve blockHash g chain) st a = Some st'"
  shows "(\<exists>m'. hn_inv blockHash g chain (live_sync c a) m' st') \<and>
     net_cost blockHash g chain st' + answers [a] \<le>
       net_cost blockHash g chain st + asks [a] * Suc (length chain div 2000)"
proof (cases a)
  case (HnConnect p)
  with ex inv_ask [OF inv, of p] cost_ask [OF d inv, of p] show ?thesis
    by (auto simp: hi_onPeerConnected_def RequestHeaders_def net_cost_def)
next
  case (HnInv p invs)
  with ex inv inv_weaken [OF inv_ask [OF inv, of p], of c] cost_ask [OF d inv, of p] show ?thesis
    by (auto simp: hi_onInv_def RequestHeaders_def net_cost_def split: if_splits)
next
  case (HnLost i)
  with ex inv_lost [OF inv, of i] show ?thesis
    by (auto simp: net_cost_def sum_list_remove_at split: if_splits)
next
  case (HnAnswer i)
  then have i: "i < length (hn_reqs st)" using ex by (simp split: if_splits)
  then obtain p j where r: "hn_reqs st ! i = (p, GetHeaders [hash_at blockHash g chain j] zero_hash)" and j: "j \<le> m"
    using inv by (auto simp: hn_inv_def list_all_length request_at_def)
  have srv: "serve blockHash g chain (hash_at blockHash g chain j) = take 2000 (drop j chain)"
    by (simp add: serve_def after_hash_at [OF d])
  obtain idx new where new: "hi_onHeaders blockHash (Some p) (take 2000 (drop j chain)) (hn_idx st) = (idx, new)"
    by force
  have st': "st' = \<lparr>hn_idx = idx, hn_reqs = remove_at i (hn_reqs st) @ new\<rparr>"
    using ex i r srv new HnAnswer by simp
  from inv_answer [OF d inv i r j new] cost_answer [OF d new, of p zero_hash] HnAnswer show ?thesis
    by (auto simp: st' net_cost_def sum_list_remove_at [OF i] r)
qed

lemma hn_run_steps:
  assumes "distinct (g # map blockHash chain)" and "hn_inv blockHash g chain c m st"
    and "hn_run blockHash (serve blockHash g chain) st as = Some st'"
  shows "(\<exists>m'. hn_inv blockHash g chain (foldl live_sync c as) m' st') \<and>
     net_cost blockHash g chain st' + answers as \<le>
       net_cost blockHash g chain st + asks as * Suc (length chain div 2000)"
  using assms(2,3)
proof (induction as arbitrary: c m st)
  case (Cons a as)
  obtain st1 where st1: "hn_exec blockHash (serve blockHash g chain) st a = Some st1"
    and run: "hn_run blockHash (serve blockHash g chain) st1 as = Some st'"
    using Cons.prems(2) by (auto split: option.splits)
  from hn_exec_step [OF assms(1) Cons.prems(1) st1] obtain m1 where
    m1: "hn_inv blockHash g chain (live_sync c a) m1 st1" and
    c1: "net_cost blockHash g chain st1 + answers [a] \<le>
       net_cost blockHash g chain st + asks [a] * Suc (length chain div 2000)" by blast
  from Cons.IH [OF m1 run] c1 counts_Cons [of a as] show ?case
    by (simp add: add_mult_distrib)
qed auto

lemma new_net_inv: "hn_inv blockHash (cp_GenesisHash params) chain False 0 (new_net params)"
  by (auto simp: hn_inv_def new_net_def newHeaderIndexer_def)

end
