(* ===== verification/Header_Props.thy ===== *)
theory Header_Props
  imports Header_Net Client_Evict
begin

text \<open>
  Properties of the header indexer among several peers: what it holds under every interleaving, that
  it reaches the end of the chain, how many answers that takes, and what it stores twice.
\<close>

text \<open>C16. With any number of peers that serve the same chain, and whatever the order in which they
  connect, answer, announce blocks and drop connections, the headers held are, apart from
  repetitions, the first ones of the chain without a gap, and all of them once the indexer
  counts itself synced. When no request is in flight, and none was lost since the last connection, all
  headers are held and the tip is the end of the chain. This is reached after at most one answer
  more than the full batches of the chain for each connection and announcement.\<close>

theorem header_net_syncs:
  fixes chain :: "'h list"
  assumes "distinct (cp_GenesisHash params # map blockHash chain)"
    and "hn_run blockHash (serve blockHash (cp_GenesisHash params) chain) (new_net params) as = Some st"
  shows "(\<exists>m \<le> length chain. first_occs {} (hi_headers (hn_idx st)) = take m chain \<and>
            (hi_synced (hn_idx st) \<longrightarrow> m = length chain)) \<and>
     (foldl live_sync False as \<and> hn_reqs st = [] \<longrightarrow>
        set (hi_headers (hn_idx st)) = set chain \<and>
        hi_tipHash (hn_idx st) = tip_of blockHash (cp_GenesisHash params) chain) \<and>
     answers as \<le> asks as * Suc (length chain div 2000)"
proof -
  let ?g = "cp_GenesisHash params"
  from hn_run_steps [OF assms(1) new_net_inv assms(2)] obtain m where
    inv: "hn_inv blockHash ?g chain (foldl live_sync False as) m st" and
    cost: "answers as \<le> asks as * Suc (length chain div 2000)"
    by (auto simp: net_cost_def new_net_def)
  have m: "m \<le> length chain" "first_occs {} (hi_headers (hn_idx st)) = take m chain"
    using inv by (simp_all add: hn_inv_def)
  have "set (hi_headers (hn_idx st)) = set chain" if "hi_tipHash (hn_idx st) = tip_of blockHash ?g chain"
  proof -
    obtain k where "k \<le> m" and tip: "hi_tipHash (hn_idx st) = hash_at blockHash ?g chain k"
      using inv unfolding hn_inv_def by blast
    have "hash_at blockHash ?g chain k = hash_at blockHash ?g chain (length chain)" using that tip by simp
    then have "drop k chain = drop (length chain) chain" using after_hash_at [OF assms(1)] by metis
    then have "m = length chain" using \<open>k \<le> m\<close> m(1) by simp
    with m(2) set_first_occs [of "{}" "hi_headers (hn_idx st)"] show ?thesis by simp
  qed
  with inv m cost show ?thesis by (auto simp: hn_inv_def)
qed

text \<open>Two peers with a chain of two headers: the second one connects before the first has answered.\<close>

definition two_peers :: "net_action list" where
  "two_peers = [HnConnect 0, HnConnect 1, HnAnswer 0, HnInv 1 [(InvTypeBlock, [])], HnAnswer 0, HnAnswer 0]"

lemma header_net_syncs_witness:
  "answers two_peers \<le> asks two_peers"
proof -
  have d: "distinct (cp_GenesisHash demo_params # map (\<lambda>h. [h]) [1, 2])" by (simp add: demo_params_def)
  have "\<exists>st. hn_run (\<lambda>h. [h]) (serve (\<lambda>h. [h]) (cp_GenesisHash demo_params) [1, 2])
      (new_net demo_params) two_peers = Some st"
    by (simp add: two_peers_def demo_params_def new_net_def newHeaderIndexer_def hi_onPeerConnected_def
        RequestHeaders_def serve_def chain_after_def hi_onHeaders_spec hi_onInv_def remove_at_def)
  then obtain st where "hn_run (\<lambda>h. [h]) (serve (\<lambda>h. [h]) (cp_GenesisHash demo_params) [1, 2])
      (new_net demo_params) two_peers = Some st" by blast
  from header_net_syncs [OF d this] show ?thesis by simp
qed

text \<open>C34. Headers are counted once per peer. When several peers connect before the first of them has
  answered, and the chain is shorter than a full batch, the indexer stores the whole chain once for
  each: its height is that multiple of the true one, and with two peers or more the headers it
  holds do not link up, though it counts itself synced.\<close>

theorem headers_stored_per_peer:
  fixes chain :: "'h list"
  assumes "distinct (cp_GenesisHash params # map blockHash chain)" and "length chain < 2000"
  shows "\<exists>st. hn_run blockHash (serve blockHash (cp_GenesisHash params) chain) (new_net params)
        (map HnConnect ps @ replicate (length ps) (HnAnswer 0)) = Some st \<and>
      hn_reqs st = [] \<and> hi_headers (hn_idx st) = concat (replicate (length ps) chain) \<and>
      hi_height (hn_idx st) = of_nat (length ps * length chain) \<and>
      (2 \<le> length ps \<and> chain \<noteq> [] \<longrightarrow>
         hi_synced (hn_idx st) \<and>
         \<not> linked blockHash prevHash (cp_GenesisHash params) (hi_headers (hn_idx st)))"
proof -
  let ?g = "cp_GenesisHash params" and ?srv = "serve blockHash (cp_GenesisHash params) chain"
  define idx0 :: "'h header_indexer" where "idx0 = newHeaderIndexer params"
  define reqs where "reqs ps = map (\<lambda>p. (p, GetHeaders [?g] zero_hash)) ps" for ps :: "nat list"
  have connect: "hn_run blockHash ?srv \<lparr>hn_idx = idx0, hn_reqs = rs\<rparr> (map HnConnect ps @ as) =
      hn_run blockHash ?srv \<lparr>hn_idx = idx0, hn_reqs = rs @ reqs ps\<rparr> as" for rs as
    by (induction ps arbitrary: rs)
       (simp_all add: hi_onPeerConnected_def RequestHeaders_def idx0_def newHeaderIndexer_def reqs_def)
  have srv: "?srv ?g = chain" using assms(2) by (simp add: serve_def chain_after_def)
  have answer: "\<exists>st. hn_run blockHash ?srv \<lparr>hn_idx = idx, hn_reqs = reqs ps\<rparr> (replicate (length ps) (HnAnswer 0)) = Some st \<and>
      hn_reqs st = [] \<and> hi_headers (hn_idx st) = hi_headers idx @ concat (replicate (length ps) chain) \<and>
      (hi_synced (hn_idx st) \<longleftrightarrow> hi_synced idx \<or> ps \<noteq> [] \<and> chain \<noteq> [])" for idx
  proof (induction ps arbitrary: idx)
    case (Cons p ps)
    let ?idx = "fst (hi_onHeaders blockHash (Some p) chain idx)"
    obtain st where "hn_run blockHash ?srv \<lparr>hn_idx = ?idx, hn_reqs = reqs ps\<rparr> (replicate (length ps) (HnAnswer 0)) = Some st"
      and "hn_reqs st = [] \<and> hi_headers (hn_idx st) = hi_headers ?idx @ concat (replicate (length ps) chain) \<and>
        (hi_synced (hn_idx st) \<longleftrightarrow> hi_synced ?idx \<or> ps \<noteq> [] \<and> chain \<noteq> [])"
      using Cons.IH [of ?idx] by blast
    then show ?case
      using assms(2) by (intro exI [of _ st]) (auto simp: reqs_def srv hi_onHeaders_spec remove_at_def)
  qed (simp add: reqs_def)
  have twice: "\<not> linked blockHash prevHash ?g (concat (replicate (length ps) chain))"
    if len: "2 \<le> length ps" and "chain \<noteq> []"
  proof -
    obtain n where n: "length ps = Suc (Suc n)" using len by (cases "length ps"; cases "length ps - 1") auto
    obtain h hs where c: "chain = h # hs" using \<open>chain \<noteq> []\<close> by (cases chain) auto
    have "tip_of blockHash ?g chain \<in> blockHash ` set chain" using \<open>chain \<noteq> []\<close> by (simp add: tip_of_def)
    then have "tip_of blockHash ?g chain \<noteq> ?g" using assms(1) by auto
    then show ?thesis by (auto simp: n c)
  qed
  show ?thesis
    using connect [of "[]" "replicate (length ps) (HnAnswer 0)"] answer [of idx0] twice
    by (auto simp: new_net_def idx0_def [symmetric] hi_height_def length_concat sum_list_replicate)
       (auto simp: idx0_def newHeaderIndexer_def)
qed

lemma headers_stored_per_peer_witness:
  "\<exists>st. hn_run (\<lambda>h. [h]) (serve (\<lambda>h. [h]) (cp_GenesisHash demo_params) [1, 2]) (new_net demo_params)
      [HnConnect 0, HnConnect 1, HnConnect 2, HnAnswer 0, HnAnswer 0, HnAnswer 0] = Some st \<and>
     hi_headers (hn_idx st) = [1, 2, 1, 2, 1, 2] \<and> hi_height (hn_idx st) = 6"
proof -
  have "distinct (cp_GenesisHash demo_params # map (\<lambda>h. [h]) [1, 2])" "length [1, 2 :: byte] < 2000"
    by (simp_all add: demo_params_def)
  from headers_stored_per_peer [OF this, of "[0, 1, 2]"] show ?thesis
    by (auto simp: numeral_3_eq_3 simp del: hn_run.simps hn_exec.simps)
qed

end
