(* ===== verification/Node.thy ===== *)
theory Node
  imports Indexer_Inv Client_Env
begin

text \<open>
  The indexing node as a whole: one goroutine in \<open>Indexer.Run\<close>, which starts the client, adds the
  resolved peers one by one, waits for its context and stops the client, together with the client's
  goroutines, which run in between, and with callers of \<open>OnHeaders\<close>. The node is the client's only
  user, so the other actions of the client are background actions.
\<close>

section \<open>Run as a state machine\<close>

text \<open>
  \<open>NdConnecting todo peers errs\<close>: the loop of \<open>connectPeers\<close> over \<open>peers\<close> still has \<open>todo\<close> to add and
  has collected \<open>errs\<close>. \<open>NdStop r\<close>: about to call \<open>Stop\<close>, after which \<open>Run\<close> returns the error \<open>r\<close>,
  or for \<open>None\<close> what \<open>Stop\<close> returns. \<open>NdStopping r\<close>: inside the client's \<open>Stop\<close>, holding the node's mutex.
\<close>

datatype node_phase =
    NdIdle
  | NdConnecting "string list" "string list" "(string \<times> client_error) list"
  | NdWaiting
  | NdStop "indexer_error option"
  | NdStopping "indexer_error option"
  | NdReturned "indexer_error option"

record ('h, 'l, 'db) node =
  nd_idx :: "('h, 'l, 'db) indexer"
  nd_phase :: node_phase

text \<open>
  \<open>NdConnect\<close> is the next iteration of the loop, or its end; its argument says whether the context of
  \<open>Run\<close> is done already. \<open>NdStopStep\<close> is a phase of the client's \<open>Stop\<close>.
\<close>

datatype 'h node_action =
    NdRun
  | NdConnect bool
  | NdCtxDone
  | NdStopCall
  | NdStopStep action
  | NdBackground action
  | NdHeaders "'h list"

definition nd_client :: "('h, 'l, 'db) node \<Rightarrow> manager" where
  "nd_client nd = ix_client (nd_idx nd)"

definition set_client :: "manager \<Rightarrow> ('h, 'l, 'db) node \<Rightarrow> ('h, 'l, 'db) node" where
  "set_client pm nd = nd\<lparr>nd_idx := (nd_idx nd)\<lparr>ix_client := pm\<rparr>\<rparr>"

text \<open>\<open>Run\<close> returns when \<open>Stop\<close> does: the error of \<open>connectPeers\<close> hides that of \<open>Stop\<close>.\<close>

definition node_return :: "indexer_error option \<Rightarrow> indexer_error option \<times> ('h, 'l, 'db) indexer
    \<Rightarrow> ('h, 'l, 'db) node \<Rightarrow> ('h, 'l, 'db) node" where
  "node_return r res nd =
     (case res of (e, idx) \<Rightarrow>
        nd\<lparr>nd_idx := idx, nd_phase := NdReturned (case r of Some e' \<Rightarrow> Some e' | None \<Rightarrow> e)\<rparr>)"

definition node_stop :: "indexer_error option \<Rightarrow> (client_error option \<times> manager) outcome
    \<Rightarrow> ('h, 'l, 'db) node \<Rightarrow> ('h, 'l, 'db) node outcome" where
  "node_stop r stop nd =
     (case indexer_Stop stop (nd_idx nd) of
        Next res \<Rightarrow> Next (node_return r res nd)
      | Blocked \<Rightarrow> Blocked
      | Panic s \<Rightarrow> Panic s)"

fun node_exec :: "('h \<Rightarrow> bytes) \<Rightarrow> ('h, 'l, 'db) node \<Rightarrow> 'h node_action \<Rightarrow> ('h, 'l, 'db) node outcome" where
  "node_exec blockHash nd NdRun =
     (case nd_phase nd of
        NdIdle \<Rightarrow>
          (case indexer_Start (nd_idx nd) of
             (Some e, idx) \<Rightarrow> Next (nd\<lparr>nd_idx := idx, nd_phase := NdReturned (Some e)\<rparr>)
           | (None, idx) \<Rightarrow>
               (let peers = indexer_peers idx
                in Next (nd\<lparr>nd_idx := idx,
                      nd_phase := (if peers = [] then NdStop (Some ErrNoPeers) else NdConnecting peers peers [])\<rparr>)))
      | _ \<Rightarrow> Blocked)"
| "node_exec blockHash nd (NdConnect cancelled) =
     (case nd_phase nd of
        NdConnecting (addr # todo) peers errs \<Rightarrow>
          (case client_exec (nd_client nd) (AAddPeer cancelled addr) of
             Next (e, pm) \<Rightarrow>
               Next ((set_client pm nd)
                 \<lparr>nd_phase := NdConnecting todo peers (case e of Some e \<Rightarrow> errs @ [(addr, e)] | None \<Rightarrow> errs)\<rparr>)
           | Blocked \<Rightarrow> Blocked
           | Panic s \<Rightarrow> Panic s)
      | NdConnecting [] peers errs \<Rightarrow>
          Next (nd\<lparr>nd_phase := (case connect_result peers errs of None \<Rightarrow> NdWaiting | Some e \<Rightarrow> NdStop (Some e))\<rparr>)
      | _ \<Rightarrow> Blocked)"
| "node_exec blockHash nd NdCtxDone =
     (case nd_phase nd of NdWaiting \<Rightarrow> Next (nd\<lparr>nd_phase := NdStop None\<rparr>) | _ \<Rightarrow> Blocked)"
| "node_exec blockHash nd NdStopCall =
     (case nd_phase nd of
        NdStop r \<Rightarrow>
          (if \<not> ix_running (nd_idx nd) then node_stop r Blocked nd
           else
             (case client_exec (nd_client nd) AStopClose of
                Next (None, pm) \<Rightarrow> Next ((set_client pm nd)\<lparr>nd_phase := NdStopping r\<rparr>)
              | stop \<Rightarrow> node_stop r stop nd))
      | _ \<Rightarrow> Blocked)"
| "node_exec blockHash nd (NdStopStep a) =
     (case nd_phase nd of
        NdStopping r \<Rightarrow>
          (case client_exec (nd_client nd) a of
             Next (e, pm) \<Rightarrow>
               if a = AStopCancel then Next (set_client pm nd)
               else if a = AStopGraceful \<or> a = AStopTimeout then node_stop r (Next (e, pm)) nd
               else Blocked
           | Blocked \<Rightarrow> Blocked
           | Panic s \<Rightarrow> Panic s)
      | _ \<Rightarrow> Blocked)"
| "node_exec blockHash nd (NdBackground a) =
     (if background a then
        (case client_exec (nd_client nd) a of
           Next (e, pm) \<Rightarrow> Next (set_client pm nd)
         | Blocked \<Rightarrow> Blocked
         | Panic s \<Rightarrow> Panic s)
      else Blocked)"
| "node_exec blockHash nd (NdHeaders hdrs) =
     (case nd_phase nd of
        NdStopping r \<Rightarrow> if hdrs = [] then Next nd else Blocked
      | _ \<Rightarrow> Next (nd\<lparr>nd_idx := indexer_OnHeaders blockHash hdrs (nd_idx nd)\<rparr>))"

fun node_run :: "('h \<Rightarrow> bytes) \<Rightarrow> ('h, 'l, 'db) node \<Rightarrow> 'h node_action list \<Rightarrow> ('h, 'l, 'db) node outcome" where
  "node_run blockHash nd [] = Next nd"
| "node_run blockHash nd (a # as) =
     (case node_exec blockHash nd a of
        Next nd' \<Rightarrow> node_run blockHash nd' as
      | Blocked \<Rightarrow> Blocked
      | Panic s \<Rightarrow> Panic s)"

definition new_node :: "('h, 'l, 'db) indexer \<Rightarrow> ('h, 'l, 'db) node" where
  "new_node idx = \<lparr>nd_idx = idx, nd_phase = NdIdle\<rparr>"

lemma set_client_simps [simp]:
  "nd_phase (set_client pm nd) = nd_phase nd" "ix_client (nd_idx (set_client pm nd)) = pm"
  "ix_running (nd_idx (set_client pm nd)) = ix_running (nd_idx nd)"
  "ix_headers (nd_idx (set_client pm nd)) = ix_headers (nd_idx nd)"
  "ix_tipHash (nd_idx (set_client pm nd)) = ix_tipHash (nd_idx nd)"
  "ix_cfg (nd_idx (set_client pm nd)) = ix_cfg (nd_idx nd)"
  "nd_client (set_client pm nd) = pm"
  by (simp_all add: set_client_def nd_client_def)

lemma OnHeaders_fields [simp]:
  "ix_client (indexer_OnHeaders blockHash hdrs idx) = ix_client idx"
  "ix_running (indexer_OnHeaders blockHash hdrs idx) = ix_running idx"
  "ix_cfg (indexer_OnHeaders blockHash hdrs idx) = ix_cfg idx"
  by (simp_all add: OnHeaders_spec)

end
