(* ===== verification/Node_Inv.thy ===== *)
theory Node_Inv
  imports Node
begin

text \<open>
  The invariant of a node that was created with at least one address to connect to, and its
  preservation by every action. It says in each phase of \<open>Run\<close> where the client's life cycle is,
  and that \<open>connectPeers\<close> has registered a peer once it has tried one.
\<close>

definition client_fresh :: "manager \<Rightarrow> bool" where
  "client_fresh pm \<longleftrightarrow> \<not> pm_started pm \<and> \<not> pm_done pm \<and> pm_stop pm = StopIdle"

definition client_up :: "manager \<Rightarrow> bool" where
  "client_up pm \<longleftrightarrow> pm_started pm \<and> \<not> pm_done pm \<and> pm_stop pm = StopIdle"

definition client_stopping :: "manager \<Rightarrow> bool" where
  "client_stopping pm \<longleftrightarrow> pm_started pm \<and> pm_done pm \<and> pm_stop pm \<noteq> StopIdle"

text \<open>The loop of \<open>connectPeers\<close>: no address tried and no peer yet, or an attempt that succeeded.\<close>

definition some_added :: "string list \<Rightarrow> string list \<Rightarrow> 'e list \<Rightarrow> manager \<Rightarrow> bool" where
  "some_added todo peers errs pm \<longleftrightarrow>
     todo = peers \<and> peers \<noteq> [] \<and> errs = [] \<and> untouched_client pm \<or>
     length errs + length todo < length peers"

definition phase_inv :: "node_phase \<Rightarrow> bool \<Rightarrow> manager \<Rightarrow> bool" where
  "phase_inv ph running pm =
     (case ph of
        NdIdle \<Rightarrow> \<not> running \<and> client_fresh pm \<and> untouched_client pm
      | NdConnecting todo peers errs \<Rightarrow> running \<and> client_up pm \<and> some_added todo peers errs pm
      | NdWaiting \<Rightarrow> running \<and> client_up pm
      | NdStop r \<Rightarrow> r = None \<and> running \<and> client_up pm
      | NdStopping r \<Rightarrow> r = None \<and> running \<and> client_stopping pm
      | NdReturned e \<Rightarrow> \<not> running \<and> (e = None \<or> e = Some (ErrShutdownFailed ErrStopTimeout)))"

definition node_inv :: "bytes \<Rightarrow> ('h \<Rightarrow> bytes) \<Rightarrow> ('h, 'l, 'db) node \<Rightarrow> bool" where
  "node_inv g blockHash nd \<longleftrightarrow>
     manager_inv (nd_client nd) \<and>
     ix_tipHash (nd_idx nd) = tip_of blockHash g (ix_headers (nd_idx nd)) \<and>
     indexer_peers (nd_idx nd) \<noteq> [] \<and>
     phase_inv (nd_phase nd) (ix_running (nd_idx nd)) (nd_client nd)"

lemmas cycle_defs = client_fresh_def client_up_def client_stopping_def same_cycle_def

text \<open>A background action keeps what each phase says.\<close>

lemma phase_inv_cycle:
  assumes "phase_inv ph running pm" and "same_cycle pm pm'" and "untouched_client pm \<Longrightarrow> untouched_client pm'"
  shows "phase_inv ph running pm'"
  using assms by (cases ph) (auto simp: phase_inv_def some_added_def cycle_defs)

lemma indexer_peers_client [simp]: "indexer_peers (idx\<lparr>ix_client := pm\<rparr>) = indexer_peers idx"
  "indexer_peers (idx\<lparr>ix_running := b\<rparr>) = indexer_peers idx"
  "indexer_peers (indexer_OnHeaders blockHash hdrs idx) = indexer_peers idx"
  by (simp_all add: indexer_peers_def)

definition node_safe :: "bytes \<Rightarrow> ('h \<Rightarrow> bytes) \<Rightarrow> ('h, 'l, 'db) node outcome \<Rightarrow> bool" where
  "node_safe g blockHash r = (case r of Next nd \<Rightarrow> node_inv g blockHash nd | Blocked \<Rightarrow> True | Panic s \<Rightarrow> False)"

lemma node_safe_simps [simp]:
  "node_safe g blockHash (Next nd) = node_inv g blockHash nd" "node_safe g blockHash Blocked"
  "\<not> node_safe g blockHash (Panic s)"
  by (simp_all add: node_safe_def)

lemma node_inv_client:
  assumes "node_inv g blockHash nd" and "manager_inv pm" and "phase_inv ph (ix_running (nd_idx nd)) pm"
  shows "node_inv g blockHash ((set_client pm nd)\<lparr>nd_phase := ph\<rparr>)"
  using assms by (simp add: node_inv_def nd_client_def set_client_def)

lemma node_inv_same_phase:
  assumes "node_inv g blockHash nd" and "manager_inv pm" and "phase_inv (nd_phase nd) (ix_running (nd_idx nd)) pm"
  shows "node_inv g blockHash (set_client pm nd)"
  using assms by (simp add: node_inv_def nd_client_def set_client_def)

lemma run_safe: "node_inv g blockHash nd \<Longrightarrow> node_safe g blockHash (node_exec blockHash nd NdRun)"
proof (cases "nd_phase nd")
  case NdIdle
  assume inv: "node_inv g blockHash nd"
  then have st: "indexer_Start (nd_idx nd) = (None, (nd_idx nd)\<lparr>ix_client := snd (client_Start (nd_client nd)), ix_running := True\<rparr>)"
    using NdIdle by (simp add: node_inv_def phase_inv_def indexer_Start_def client_fresh_def client_Start_def nd_client_def)
  have "manager_inv (snd (client_Start (nd_client nd)))"
    using inv by (auto simp: node_inv_def client_Start_def manager_inv_def)
  then show ?thesis
    using inv NdIdle st
    by (auto simp: node_inv_def phase_inv_def some_added_def cycle_defs client_Start_def nd_client_def
        untouched_client_def Let_def)
qed simp_all

lemma connect_safe: "node_inv g blockHash nd \<Longrightarrow> node_safe g blockHash (node_exec blockHash nd (NdConnect cancelled))"
proof (cases "nd_phase nd")
  case (NdConnecting todo peers errs)
  assume inv: "node_inv g blockHash nd"
  then have ph: "ix_running (nd_idx nd)" "client_up (nd_client nd)" "some_added todo peers errs (nd_client nd)"
    and m: "manager_inv (nd_client nd)"
    using NdConnecting by (simp_all add: node_inv_def phase_inv_def)
  show ?thesis
  proof (cases todo)
    case Nil
    with ph(3) have "length errs < length peers" by (auto simp: some_added_def)
    then have "connect_result peers errs = None" by (auto simp: connect_result_def)
    with Nil NdConnecting inv ph show ?thesis by (simp add: node_inv_def phase_inv_def nd_client_def)
  next
    case (Cons addr todo')
    obtain e pm where a: "addPeer cancelled addr (nd_client nd) = (e, pm)" by force
    have pm: "manager_inv pm" using addPeer_inv [OF m, of cancelled addr] a by simp
    have up: "client_up pm" "pm_stop (nd_client nd) = StopIdle"
      using addPeer_cycle [of "nd_client nd" cancelled addr] a ph(2) by (simp_all add: cycle_defs)
    have "some_added todo' peers (case e of Some e \<Rightarrow> errs @ [(addr, e)] | None \<Rightarrow> errs) pm"
      using ph(3) m a untouched_addPeer [of "nd_client nd" cancelled addr] Cons
      by (auto simp: some_added_def manager_inv_def split: option.splits)
    with node_inv_client [OF inv pm, of "NdConnecting todo' peers (case e of Some e \<Rightarrow> errs @ [(addr, e)] | None \<Rightarrow> errs)"]
      up ph(1) NdConnecting Cons a show ?thesis
      by (simp add: phase_inv_def enabled_if_def)
  qed
qed simp_all

lemma stop_call_safe: "node_inv g blockHash nd \<Longrightarrow> node_safe g blockHash (node_exec blockHash nd NdStopCall)"
proof (cases "nd_phase nd")
  case (NdStop r)
  assume inv: "node_inv g blockHash nd"
  then have ph: "r = None" "ix_running (nd_idx nd)" "client_up (nd_client nd)" and m: "manager_inv (nd_client nd)"
    using NdStop by (simp_all add: node_inv_def phase_inv_def)
  let ?pm = "(nd_client nd)\<lparr>pm_done := True, pm_stop := StopCancelling\<rparr>"
  have "client_exec (nd_client nd) AStopClose = Next (None, ?pm)"
    using ph(3) by (simp add: client_up_def enabled_if_def client_Stop_close_def)
  moreover have "manager_inv ?pm" using m ph(3) by (auto simp: manager_inv_def client_up_def)
  moreover have "client_stopping ?pm" using ph(3) by (simp add: cycle_defs)
  ultimately show ?thesis
    using NdStop ph node_inv_client [OF inv, of ?pm "NdStopping None"]
    by (simp add: phase_inv_def enabled_if_def)
qed simp_all

lemma stop_step_safe: "node_inv g blockHash nd \<Longrightarrow> node_safe g blockHash (node_exec blockHash nd (NdStopStep a))"
proof (cases "nd_phase nd")
  case (NdStopping r)
  assume inv: "node_inv g blockHash nd"
  then have ph: "r = None" "ix_running (nd_idx nd)" "client_stopping (nd_client nd)"
    and m: "manager_inv (nd_client nd)"
    using NdStopping by (simp_all add: node_inv_def phase_inv_def)
  have np: "client_exec (nd_client nd) a \<noteq> Panic s" for s
    using panic_iff_double_stop [OF m, of a] ph(3) by (auto simp: double_stop_def cycle_defs)
  show ?thesis
  proof (cases "client_exec (nd_client nd) a")
    case (Next res)
    obtain e pm where res: "res = (e, pm)" by (cases res)
    have pm: "manager_inv pm" using client_exec_inv [OF m] Next res by blast
    show ?thesis
    proof (cases "a = AStopCancel")
      case True
      with Next res have pm_eq: "pm = client_Stop_cancel (nd_client nd)" by simp
      have "client_stopping pm"
        using ph(3) untouched_stop [of 0 "nd_client nd"] pm
        by (auto simp: pm_eq cycle_defs manager_inv_def client_Stop_cancel_def untouched_def grows_def)
      with ph NdStopping have "node_inv g blockHash (set_client pm nd)"
        by (intro node_inv_same_phase [OF inv pm]) (simp add: phase_inv_def)
      with True Next res NdStopping show ?thesis by (simp add: enabled_if_def)
    next
      case False
      have "e = None \<or> e = Some ErrStopTimeout" if "a = AStopGraceful \<or> a = AStopTimeout"
        using that Next res
        by (auto simp: client_Stop_graceful_def client_Stop_timeout_def split: if_splits)
      with False Next res NdStopping ph inv pm show ?thesis
        by (auto simp: node_stop_def node_return_def indexer_Stop_def node_inv_def phase_inv_def nd_client_def Let_def
            split: option.splits)
    qed
  qed (use NdStopping np in simp_all)
qed simp_all

lemma background_safe: "node_inv g blockHash nd \<Longrightarrow> node_safe g blockHash (node_exec blockHash nd (NdBackground a))"
proof (cases "client_exec (nd_client nd) a")
  case (Next res)
  assume inv: "node_inv g blockHash nd"
  obtain e pm where res: "res = (e, pm)" by (cases res)
  have ex: "client_exec (nd_client nd) a = Next (e, pm)" using Next res by simp
  have "node_inv g blockHash (set_client pm nd)" if b: "background a"
    using inv client_exec_inv [OF _ ex]
      phase_inv_cycle [OF _ background_cycle [OF b ex] background_untouched [OF _ b ex]]
    by (intro node_inv_same_phase [OF inv]) (auto simp: node_inv_def)
  with Next res show ?thesis by simp
next
  case (Panic s)
  moreover assume "node_inv g blockHash nd"
  ultimately show ?thesis using background_no_panic [of "nd_client nd" a s] by (auto simp: node_inv_def)
qed simp

lemma OnHeaders_tip:
  "ix_tipHash (indexer_OnHeaders blockHash hdrs idx) = tip_of blockHash (ix_tipHash idx) hdrs"
  "ix_headers (indexer_OnHeaders blockHash hdrs idx) = ix_headers idx @ hdrs"
  by (simp_all add: OnHeaders_spec tip_of_def)

lemma headers_safe: "node_inv g blockHash nd \<Longrightarrow> node_safe g blockHash (node_exec blockHash nd (NdHeaders hdrs))"
  by (cases "nd_phase nd") (simp_all add: node_inv_def nd_client_def OnHeaders_tip)

lemma node_exec_safe: "node_inv g blockHash nd \<Longrightarrow> node_safe g blockHash (node_exec blockHash nd a)"
proof (cases a)
  case NdCtxDone
  moreover assume "node_inv g blockHash nd"
  ultimately show ?thesis
    by (cases "nd_phase nd") (simp_all add: node_inv_def phase_inv_def nd_client_def)
qed (simp_all only: run_safe connect_safe stop_call_safe stop_step_safe background_safe headers_safe)

lemma node_run_safe: "node_inv g blockHash nd \<Longrightarrow> node_safe g blockHash (node_run blockHash nd as)"
proof (induction as arbitrary: nd)
  case (Cons a as)
  from node_exec_safe [OF Cons.prems, of a] Cons.IH show ?case by (cases "node_exec blockHash nd a") auto
qed simp

text \<open>A new node.\<close>

lemma new_node_inv:
  fixes opts :: "('l, 'db) indexer_option list"
  assumes "indexer_New nets deflt tag opts = Inr idx" and "indexer_peers idx \<noteq> []"
  shows "node_inv (ix_tipHash idx) blockHash (new_node idx)"
proof -
  obtain opts' :: "'l client_option list" where new: "NewBtcClient opts' (net_MainNet nets) = Inr (ix_client idx)"
    and idx: "ix_headers idx = []" "\<not> ix_running idx"
    using assms(1) by (auto simp: indexer_New_def Let_def split: sum.splits)
  from fresh_inv [OF new] idx assms(2) show ?thesis
    by (simp add: node_inv_def new_node_def nd_client_def phase_inv_def client_fresh_def untouched_client_def)
qed

end
