(* ===== verification/Node_Props.thy ===== *)
theory Node_Props
  imports Node_Inv Indexer_Props
begin

text \<open>
  The properties of the node as a whole: what \<open>Run\<close> can return and when, and that the model of
  \<open>connectPeers\<close> in one go is the case in which no other goroutine runs.
\<close>

section \<open>What Run returns\<close>











section \<open>No interleaving\<close>




end
