(* ===== verification/Logger.thy ===== *)
theory Logger
  imports Db_Options
begin

text \<open>
  \<open>pkg/logger\<close>: the \<open>Logger\<close> interface with its two implementations, the options of the zap
  configuration, the constructors and the global default. Zap itself is a parameter: a sugared
  logger is a value of type \<open>'z\<close>, and \<open>zap\<close> holds what the adapter calls. A log call yields the
  entries it hands to zap.
\<close>

section \<open>Interface\<close>

datatype log_level = LvDebug | LvInfo | LvWarn | LvError | LvFatal

text \<open>\<open>keysAndValues\<close>: values of an abstract type.\<close>

datatype 'z logger = NopLogger | ZapLogger 'z

record ('z, 'kv) log_entry =
  le_sugar :: 'z
  le_level :: log_level
  le_msg :: string
  le_fields :: "'kv list"

record zap_config =
  zc_Level :: int
  zc_OutputPaths :: "string list"
  zc_DisableCaller :: bool
  zc_DisableStacktrace :: bool
  zc_TimeKey :: string
  zc_Encoders :: "string list"

text \<open>
  What the adapter uses of zap: the level that \<open>UnmarshalText\<close> reads, the two preset
  configurations, \<open>Build\<close> (with \<open>AddCallerSkip(1)\<close>) followed by \<open>Sugar\<close>, \<open>With\<close> and \<open>Sync\<close>.
\<close>

record ('z, 'kv) zap =
  zp_parse_level :: "string \<Rightarrow> int option"
  zp_production :: zap_config
  zp_development :: zap_config
  zp_build :: "zap_config \<Rightarrow> string + 'z"
  zp_with :: "'z \<Rightarrow> 'kv list \<Rightarrow> 'z"
  zp_sync :: "'z \<Rightarrow> string option"

section \<open>The zap logger\<close>

definition zap_entry :: "log_level \<Rightarrow> 'z \<Rightarrow> string \<Rightarrow> 'kv list \<Rightarrow> ('z, 'kv) log_entry list" where
  "zap_entry level z msg kvs = [\<lparr>le_sugar = z, le_level = level, le_msg = msg, le_fields = kvs\<rparr>]"

definition zap_Debug :: "'z \<Rightarrow> string \<Rightarrow> 'kv list \<Rightarrow> ('z, 'kv) log_entry list" where
  "zap_Debug = zap_entry LvDebug"

definition zap_Info :: "'z \<Rightarrow> string \<Rightarrow> 'kv list \<Rightarrow> ('z, 'kv) log_entry list" where
  "zap_Info = zap_entry LvInfo"

definition zap_Warn :: "'z \<Rightarrow> string \<Rightarrow> 'kv list \<Rightarrow> ('z, 'kv) log_entry list" where
  "zap_Warn = zap_entry LvWarn"

definition zap_Error :: "'z \<Rightarrow> string \<Rightarrow> 'kv list \<Rightarrow> ('z, 'kv) log_entry list" where
  "zap_Error = zap_entry LvError"

definition zap_Fatal :: "'z \<Rightarrow> string \<Rightarrow> 'kv list \<Rightarrow> ('z, 'kv) log_entry list" where
  "zap_Fatal = zap_entry LvFatal"

definition zap_With :: "('z, 'kv) zap \<Rightarrow> 'z \<Rightarrow> 'kv list \<Rightarrow> 'z logger" where
  "zap_With zap z kvs = ZapLogger (zp_with zap z kvs)"

definition zap_Sync :: "('z, 'kv) zap \<Rightarrow> 'z \<Rightarrow> string option" where
  "zap_Sync zap z = zp_sync zap z"

lemmas zap_method_defs = zap_Debug_def zap_Info_def zap_Warn_def zap_Error_def zap_Fatal_def zap_entry_def

section \<open>The silent logger, and calls through the interface\<close>

definition Nop :: "'z logger" where
  "Nop = NopLogger"

definition nop_emit :: "log_level \<Rightarrow> string \<Rightarrow> 'kv list \<Rightarrow> ('z, 'kv) log_entry list" where
  "nop_emit level msg kvs = []"

definition log_emit :: "'z logger \<Rightarrow> log_level \<Rightarrow> string \<Rightarrow> 'kv list \<Rightarrow> ('z, 'kv) log_entry list" where
  "log_emit l level msg kvs =
     (case l of
        NopLogger \<Rightarrow> nop_emit level msg kvs
      | ZapLogger z \<Rightarrow>
          (case level of
             LvDebug \<Rightarrow> zap_Debug z msg kvs
           | LvInfo \<Rightarrow> zap_Info z msg kvs
           | LvWarn \<Rightarrow> zap_Warn z msg kvs
           | LvError \<Rightarrow> zap_Error z msg kvs
           | LvFatal \<Rightarrow> zap_Fatal z msg kvs))"

lemma log_emit_simps [simp]:
  "log_emit NopLogger level msg kvs = []"
  "log_emit (ZapLogger z) level msg kvs = [\<lparr>le_sugar = z, le_level = level, le_msg = msg, le_fields = kvs\<rparr>]"
  by (simp_all add: log_emit_def nop_emit_def zap_method_defs split: log_level.splits)

definition log_With :: "('z, 'kv) zap \<Rightarrow> 'z logger \<Rightarrow> 'kv list \<Rightarrow> 'z logger" where
  "log_With zap l kvs = (case l of NopLogger \<Rightarrow> NopLogger | ZapLogger z \<Rightarrow> zap_With zap z kvs)"

text \<open>
  \<open>Fatal\<close> ends the process when zap handles it; the silent logger returns to its caller.
\<close>

definition fatal_exits :: "'z logger \<Rightarrow> bool" where
  "fatal_exits l = (case l of NopLogger \<Rightarrow> False | ZapLogger z \<Rightarrow> True)"

section \<open>Options and constructors\<close>

definition logger_WithLevel :: "('z, 'kv) zap \<Rightarrow> string \<Rightarrow> zap_config \<Rightarrow> zap_config" where
  "logger_WithLevel zap level cfg =
     (case zp_parse_level zap level of Some l \<Rightarrow> cfg\<lparr>zc_Level := l\<rparr> | None \<Rightarrow> cfg)"

definition logger_WithOutputPaths :: "string list \<Rightarrow> zap_config \<Rightarrow> zap_config" where
  "logger_WithOutputPaths paths cfg = cfg\<lparr>zc_OutputPaths := paths\<rparr>"

definition logger_WithDisableCaller :: "zap_config \<Rightarrow> zap_config" where
  "logger_WithDisableCaller cfg = cfg\<lparr>zc_DisableCaller := True\<rparr>"

definition logger_WithDisableStacktrace :: "zap_config \<Rightarrow> zap_config" where
  "logger_WithDisableStacktrace cfg = cfg\<lparr>zc_DisableStacktrace := True\<rparr>"

definition NewProduction :: "('z, 'kv) zap \<Rightarrow> (zap_config \<Rightarrow> zap_config) list \<Rightarrow> string + 'z logger" where
  "NewProduction zap opts =
     (let cfg = (zp_production zap)\<lparr>zc_TimeKey := ''ts'', zc_Encoders := [''ISO8601Time'', ''StringDuration'']\<rparr>
      in case zp_build zap (apply_options opts cfg) of Inl e \<Rightarrow> Inl e | Inr z \<Rightarrow> Inr (ZapLogger z))"

definition NewDevelopment :: "('z, 'kv) zap \<Rightarrow> (zap_config \<Rightarrow> zap_config) list \<Rightarrow> string + 'z logger" where
  "NewDevelopment zap opts =
     (let cfg = (zp_development zap)\<lparr>zc_Encoders := [''CapitalColorLevel'', ''StringDuration'']\<rparr>
      in case zp_build zap (apply_options opts cfg) of Inl e \<Rightarrow> Inl e | Inr z \<Rightarrow> Inr (ZapLogger z))"

definition MustProduction :: "('z, 'kv) zap \<Rightarrow> (zap_config \<Rightarrow> zap_config) list \<Rightarrow> 'z logger outcome" where
  "MustProduction zap opts =
     (case NewProduction zap opts of
        Inl err \<Rightarrow> Panic (''logger: failed to create production logger: '' @ err)
      | Inr l \<Rightarrow> Next l)"

definition MustDevelopment :: "('z, 'kv) zap \<Rightarrow> (zap_config \<Rightarrow> zap_config) list \<Rightarrow> 'z logger outcome" where
  "MustDevelopment zap opts =
     (case NewDevelopment zap opts of
        Inl err \<Rightarrow> Panic (''logger: failed to create development logger: '' @ err)
      | Inr l \<Rightarrow> Next l)"

section \<open>The global default\<close>

text \<open>The state is the current default; it starts as the logger that discards everything.\<close>

definition initial_default :: "'z logger" where
  "initial_default = Nop"

definition Default :: "'z logger \<Rightarrow> 'z logger" where
  "Default current = current"

definition SetDefault :: "'z logger \<Rightarrow> 'z logger \<Rightarrow> 'z logger" where
  "SetDefault l current = l"

text \<open>\<open>SyncDefault\<close> calls \<open>Sync\<close> on a zap logger only, and drops its error; the result is the error dropped.\<close>

definition SyncDefault :: "('z, 'kv) zap \<Rightarrow> 'z logger \<Rightarrow> string option" where
  "SyncDefault zap current = (case current of NopLogger \<Rightarrow> None | ZapLogger z \<Rightarrow> zap_Sync zap z)"

text \<open>
  The package-level functions log through whatever the default is at the call; a child of a
  logger that was the default before keeps its own sink.
\<close>

fun default_run :: "'z logger \<Rightarrow> ('z logger + log_level \<times> string \<times> 'kv list) list \<Rightarrow> ('z, 'kv) log_entry list" where
  "default_run d [] = []"
| "default_run d (Inl l # xs) = default_run (SetDefault l d) xs"
| "default_run d (Inr (level, msg, kvs) # xs) = log_emit (Default d) level msg kvs @ default_run d xs"

lemma default_run_append:
  "default_run d (xs @ ys) =
   default_run d xs @ default_run (fold (\<lambda>x d. case x of Inl l \<Rightarrow> SetDefault l d | Inr _ \<Rightarrow> d) xs d) ys"
  by (induction d xs rule: default_run.induct) (simp_all add: SetDefault_def)

text \<open>Before the first \<open>SetDefault\<close> everything is discarded, children of the default included.\<close>

lemma default_silent:
  "(\<forall>x \<in> set xs. \<exists>m. x = Inr m) \<Longrightarrow> default_run initial_default xs = []"
  by (induction xs) (auto simp: initial_default_def Nop_def Default_def)

lemma nop_children_silent: "log_emit (fold (\<lambda>kvs l. log_With zap l kvs) kvss NopLogger) level msg kvs = []"
  by (induction kvss) (simp_all add: log_With_def)

lemma logger_WithLevel_unknown: "zp_parse_level zap level = None \<Longrightarrow> logger_WithLevel zap level cfg = cfg"
  by (simp add: logger_WithLevel_def)

lemma MustProduction_outcome:
  "(\<exists>s. MustProduction zap opts = Panic s) \<longleftrightarrow> (\<exists>e. NewProduction zap opts = Inl e)"
  "MustProduction zap opts \<noteq> Blocked"
  by (auto simp: MustProduction_def split: sum.splits)

end
