(* ===== verification/Entry_Points.thy ===== *)
theory Entry_Points
  imports Pebble_Store Indexer Logger
begin

text \<open>
  \<open>utils/utils.go\<close>, \<open>config/config.go\<close>, \<open>cmd/main.go\<close> and \<open>test/main.go\<close>: reading the environment and
  assembling the program. Viper, zap, the chain parameters and the storage engine are parameters.
\<close>

section \<open>Environment\<close>

datatype viper_error = ConfigFileNotFoundError | ViperError string

record 'v viper =
  vp_SetConfigName :: "string \<Rightarrow> 'v \<Rightarrow> 'v"
  vp_SetConfigType :: "string \<Rightarrow> 'v \<Rightarrow> 'v"
  vp_AddConfigPath :: "string \<Rightarrow> 'v \<Rightarrow> 'v"
  vp_AutomaticEnv :: "'v \<Rightarrow> 'v"
  vp_ReadInConfig :: "'v \<Rightarrow> viper_error option \<times> 'v"
  vp_GetString :: "'v \<Rightarrow> string \<Rightarrow> string"

text \<open>\<open>log.Panicln\<close> panics with the line it prints.\<close>

definition ImportEnv :: "'v viper \<Rightarrow> 'v \<Rightarrow> 'v outcome" where
  "ImportEnv V v =
     (let v1 = vp_SetConfigName V ''.env'' v;
          v2 = vp_SetConfigType V ''env'' v1;
          v3 = vp_AddConfigPath V ''.'' v2;
          v4 = vp_AutomaticEnv V v3
      in case vp_ReadInConfig V v4 of
           (None, v5) \<Rightarrow> Next v5
         | (Some ConfigFileNotFoundError, v5) \<Rightarrow> Next v5
         | (Some (ViperError s), v5) \<Rightarrow> Panic (''fatal error config file: '' @ s @ [CHR 0x0A]))"

record app_config =
  APP_NAME :: string
  APP_VERSION :: string
  BREWERY_CHAINPARAM :: string
  BREWERY_MAXPEERS :: "8 word"
  BREWERY_ENODE :: "string list"
  BREWERY_DATA_DIR :: string

definition initial_config :: app_config where
  "initial_config =
     \<lparr>APP_NAME = ''brewery-bitcoin'', APP_VERSION = ''0.0.1'', BREWERY_CHAINPARAM = ''mainnet'',
      BREWERY_MAXPEERS = 10, BREWERY_ENODE = [], BREWERY_DATA_DIR = ''''\<rparr>"

definition LoadConfig :: "'v viper \<Rightarrow> 'v \<Rightarrow> app_config \<Rightarrow> app_config outcome" where
  "LoadConfig V v cfg =
     (case ImportEnv V v of
        Next v' \<Rightarrow> Next (cfg\<lparr>BREWERY_DATA_DIR := vp_GetString V v' ''DATA_DIR''\<rparr>)
      | Blocked \<Rightarrow> Blocked
      | Panic s \<Rightarrow> Panic s)"

section \<open>Paths\<close>

text \<open>
  The standard library's \<open>filepath.Join\<close> on Unix: the elements from the first non-empty one on,
  separated by slashes, and then cleaned.
\<close>

fun split_slash :: "string \<Rightarrow> string \<Rightarrow> string list" where
  "split_slash acc [] = [acc]"
| "split_slash acc (c # cs) = (if c = CHR ''/'' then acc # split_slash '''' cs else split_slash (acc @ [c]) cs)"

fun join_slash :: "string list \<Rightarrow> string" where
  "join_slash [] = ''''"
| "join_slash [s] = s"
| "join_slash (s # ss) = s @ ''/'' @ join_slash ss"

text \<open>One component: the components kept so far are in reverse.\<close>

definition clean_step :: "bool \<Rightarrow> string \<Rightarrow> string list \<Rightarrow> string list" where
  "clean_step rooted s out =
     (if s = '''' \<or> s = ''.'' then out
      else if s = ''..'' then
        (case out of
           [] \<Rightarrow> if rooted then [] else [''..'']
         | t # ts \<Rightarrow> if t = ''..'' then ''..'' # out else ts)
      else s # out)"

definition path_clean :: "string \<Rightarrow> string" where
  "path_clean p =
     (let rooted = (p \<noteq> '''' \<and> hd p = CHR ''/'');
          out = rev (fold (clean_step rooted) (split_slash '''' p) [])
      in if rooted then ''/'' @ join_slash out else if out = [] then ''.'' else join_slash out)"

definition path_join :: "string list \<Rightarrow> string" where
  "path_join elems =
     (let es = dropWhile (\<lambda>e. e = '''') elems in if es = [] then '''' else path_clean (join_slash es))"

section \<open>The command\<close>

text \<open>
  How \<open>main\<close> ends: by a panic, by \<open>logger.Fatal\<close> with its message, or by returning, with the store
  and the node it leaves behind. The global default is a zap logger from the first lines on, so
  \<open>Fatal\<close> ends the process.
\<close>

datatype ('z, 'e, 'h) cmd_end =
    CmdPanic string
  | CmdFatal string
  | CmdReturns app_config "'z logger" "'e pebble_db" "('h, 'z logger, 'e pebble_db) indexer"

definition cmd_main :: "'v viper \<Rightarrow> 'v \<Rightarrow> ('z, 'kv) zap \<Rightarrow> ('e, 'b, 'i) engine \<Rightarrow> int \<Rightarrow> networks
    \<Rightarrow> ('z logger \<Rightarrow> 'z logger) \<Rightarrow> ('z, 'e, 'h) cmd_end" where
  "cmd_main V v zap E numCPU nets tag =
     (case LoadConfig V v initial_config of
        Panic s \<Rightarrow> CmdPanic s
      | Blocked \<Rightarrow> CmdPanic ''''
      | Next cfg \<Rightarrow>
          (case MustProduction zap [] of
             Panic s \<Rightarrow> CmdPanic s
           | Blocked \<Rightarrow> CmdPanic ''''
           | Next log \<Rightarrow>
               (let default = SetDefault log initial_default in
                case pebble_Open E numCPU (path_join [BREWERY_DATA_DIR cfg, ''db''])
                       [db_WithColumnFamilies [''headers''],
                        db_WithWALDir (path_join [BREWERY_DATA_DIR cfg, ''wal'']),
                        db_WithLogger (Default default)] of
                  Inl e \<Rightarrow> CmdFatal ''failed to create database''
                | Inr store \<Rightarrow>
                    (case indexer_New nets (Default default) tag
                            [indexer_WithNetwork nets (BREWERY_CHAINPARAM cfg),
                             indexer_WithMaxPeers (uint (BREWERY_MAXPEERS cfg)),
                             indexer_WithPeers (BREWERY_ENODE cfg),
                             indexer_WithLogger (Some (Default default)),
                             indexer_WithDb (Some store)] of
                       Inl e \<Rightarrow> CmdFatal ''failed to create indexer''
                     | Inr idx \<Rightarrow> CmdReturns cfg default store idx))))"

text \<open>\<open>test/main.go\<close> creates a client with the default configuration on signet and prints it.\<close>

datatype test_end = TestPanic string | TestFatal string | TestReturns manager

definition test_main :: "('z, 'kv) zap \<Rightarrow> networks \<Rightarrow> test_end" where
  "test_main zap nets =
     (case MustDevelopment zap [] of
        Panic s \<Rightarrow> TestPanic s
      | Blocked \<Rightarrow> TestPanic ''''
      | Next log \<Rightarrow>
          (case NewBtcClient [client_WithChainParams (Some (net_SigNet nets)) :: 'z logger client_option]
                  (net_MainNet nets) of
             Inl e \<Rightarrow> TestFatal ''failed to create client''
           | Inr pm \<Rightarrow> TestReturns pm))"

end
