(* ===== verification/Example_Mains.thy ===== *)
theory Example_Mains
  imports Client_Env Indexer Logger
begin

text \<open>
  The \<open>main\<close> functions of \<open>examples/requestpeers\<close> and \<open>examples/headerindexer\<close>: each creates a
  client, starts it, adds seed peers, waits for an interrupt and stops. The client's goroutines and
  the network act between the calls. \<open>log.Fatal\<close> ends the process, as zap documents.
\<close>

datatype main_call = CallStart | CallAddPeer string | CallWait | CallStop

text \<open>Where \<open>main\<close> is: before its remaining calls, inside \<open>Stop\<close>, ended by \<open>Fatal\<close>, or returned.\<close>

datatype main_phase =
    MainAt "main_call list"
  | MainStopping
  | MainFatal string client_error
  | MainReturned "client_error option"

record main_state =
  ms_client :: manager
  ms_phase :: main_phase

datatype main_action = MainNext | MainStopStep action | MainBackground action

definition fatal_or :: "string \<Rightarrow> main_call list \<Rightarrow> (client_error option \<times> manager) outcome \<Rightarrow> main_state outcome" where
  "fatal_or msg calls r =
     (case r of
        Next (None, pm) \<Rightarrow> Next \<lparr>ms_client = pm, ms_phase = MainAt calls\<rparr>
      | Next (Some e, pm) \<Rightarrow> Next \<lparr>ms_client = pm, ms_phase = MainFatal msg e\<rparr>
      | Blocked \<Rightarrow> Blocked
      | Panic s \<Rightarrow> Panic s)"

fun main_call_exec :: "main_state \<Rightarrow> main_call \<Rightarrow> main_call list \<Rightarrow> main_state outcome" where
  "main_call_exec ms CallStart calls = fatal_or ''failed to start client'' calls (client_exec (ms_client ms) AStart)"
| "main_call_exec ms (CallAddPeer addr) calls =
     fatal_or ''failed to add seed peer'' calls (client_exec (ms_client ms) (AAddPeer False addr))"
| "main_call_exec ms CallWait calls = Next (ms\<lparr>ms_phase := MainAt calls\<rparr>)"
| "main_call_exec ms CallStop calls =
     (case client_exec (ms_client ms) AStopClose of
        Next (None, pm) \<Rightarrow> Next \<lparr>ms_client = pm, ms_phase = MainStopping\<rparr>
      | Next (Some e, pm) \<Rightarrow> Next \<lparr>ms_client = pm, ms_phase = MainReturned (Some e)\<rparr>
      | Blocked \<Rightarrow> Blocked
      | Panic s \<Rightarrow> Panic s)"

text \<open>The process runs its goroutines until \<open>main\<close> has ended.\<close>

definition main_over :: "main_phase \<Rightarrow> bool" where
  "main_over ph = (case ph of MainFatal m e \<Rightarrow> True | MainReturned e \<Rightarrow> True | _ \<Rightarrow> False)"

fun main_exec :: "main_state \<Rightarrow> main_action \<Rightarrow> main_state outcome" where
  "main_exec ms MainNext =
     (case ms_phase ms of MainAt (c # calls) \<Rightarrow> main_call_exec ms c calls | _ \<Rightarrow> Blocked)"
| "main_exec ms (MainStopStep a) =
     (if ms_phase ms = MainStopping \<and> a \<in> {AStopCancel, AStopGraceful, AStopTimeout} then
        (case client_exec (ms_client ms) a of
           Next (e, pm) \<Rightarrow> Next \<lparr>ms_client = pm, ms_phase = (if a = AStopCancel then MainStopping else MainReturned e)\<rparr>
         | Blocked \<Rightarrow> Blocked
         | Panic s \<Rightarrow> Panic s)
      else Blocked)"
| "main_exec ms (MainBackground a) =
     (if background a \<and> \<not> main_over (ms_phase ms) then
        (case client_exec (ms_client ms) a of
           Next (e, pm) \<Rightarrow> Next (ms\<lparr>ms_client := pm\<rparr>)
         | Blocked \<Rightarrow> Blocked
         | Panic s \<Rightarrow> Panic s)
      else Blocked)"

fun main_run :: "main_state \<Rightarrow> main_action list \<Rightarrow> main_state outcome" where
  "main_run ms [] = Next ms"
| "main_run ms (a # as) =
     (case main_exec ms a of Next ms' \<Rightarrow> main_run ms' as | Blocked \<Rightarrow> Blocked | Panic s \<Rightarrow> Panic s)"

definition start_seeds_stop :: "string list \<Rightarrow> main_call list" where
  "start_seeds_stop seeds = CallStart # map CallAddPeer seeds @ [CallWait, CallStop]"

section \<open>requestpeers\<close>

text \<open>The values that the callbacks log: strings and integers.\<close>

datatype log_value = LogString string | LogInt int

definition log_connected :: "'z logger \<Rightarrow> managed_peer \<Rightarrow> ('z, log_value) log_entry list" where
  "log_connected log mp = log_emit log LvInfo ''connected to peer'' [LogString ''address'', LogString (Address mp)]"

definition log_addresses :: "'z logger \<Rightarrow> managed_peer \<Rightarrow> nat \<Rightarrow> ('z, log_value) log_entry list" where
  "log_addresses log mp n =
     log_emit log LvInfo ''received peer addresses''
       [LogString ''count'', LogInt (int n), LogString ''from'', LogString (Address mp)]"

definition log_disconnected :: "'z logger \<Rightarrow> managed_peer \<Rightarrow> ('z, log_value) log_entry list" where
  "log_disconnected log mp =
     log_emit log LvInfo ''peer disconnected'' [LogString ''address'', LogString (Address mp)]"

text \<open>
  The printed line of the \<open>i\<close>-th address; the texts of its services and of its time stamp come from
  the wire protocol's package and the standard library.
\<close>

definition address_line :: "nat \<Rightarrow> net_addr \<times> string \<times> string \<Rightarrow> string" where
  "address_line i = (\<lambda>(addr, services, seen).
     ''  ['' @ show_nat (i + 1) @ ''] '' @ na_ip addr @ '':'' @ show_nat (unat (na_port addr))
     @ '' (services: '' @ services @ '', last seen: '' @ seen @ '')'' @ [CHR 0x0A])"

definition requestpeers_OnAddr :: "'z logger \<Rightarrow> managed_peer \<Rightarrow> (net_addr \<times> string \<times> string) list
    \<Rightarrow> ('z, log_value) log_entry list \<times> string list" where
  "requestpeers_OnAddr log mp as =
     (log_addresses log mp (length as), map (\<lambda>(i, a). address_line i a) (enumerate 0 as))"

definition requestpeers_listeners :: listeners where
  "requestpeers_listeners =
     no_listeners\<lparr>ml_OnPeerConnected := True, ml_OnAddr := True, ml_OnPeerDisconnected := True\<rparr>"

definition requestpeers_seeds :: "string list" where
  "requestpeers_seeds = [''seed.bitcoin.sipa.be:8333'']"

text \<open>\<open>NewBtcClient\<close> fails with \<open>Fatal\<close> too.\<close>

definition requestpeers_main :: "networks \<Rightarrow> 'l \<Rightarrow> client_error + main_state" where
  "requestpeers_main nets log =
     (case NewBtcClient
             [client_WithChainParams (Some (net_MainNet nets)), client_WithMaxPeers 1,
              client_WithLogger (Some log), client_WithListeners (Some requestpeers_listeners)] (net_MainNet nets) of
        Inl e \<Rightarrow> Inl e
      | Inr pm \<Rightarrow> Inr \<lparr>ms_client = pm, ms_phase = MainAt (start_seeds_stop requestpeers_seeds)\<rparr>)"

section \<open>headerindexer\<close>

definition headerindexer_listeners :: listeners where
  "headerindexer_listeners =
     no_listeners\<lparr>ml_OnHeaders := True, ml_OnPeerConnected := True, ml_OnInv := True, ml_OnAddr := True\<rparr>"

definition headerindexer_seeds :: "string list" where
  "headerindexer_seeds =
     [''seed.signet.bitcoin.sprovoost.nl:38333'', ''seed.signet.achow101.com:38333'',
      ''seed.signet.bublina.eu.org:38333'']"

definition headerindexer_main :: "networks \<Rightarrow> 'l \<Rightarrow> client_error + main_state" where
  "headerindexer_main nets log =
     (case NewBtcClient
             [client_WithChainParams (Some (net_SigNet nets)), client_WithMaxPeers 8,
              client_WithLogger (Some log), client_WithListeners (Some headerindexer_listeners)] (net_MainNet nets) of
        Inl e \<Rightarrow> Inl e
      | Inr pm \<Rightarrow> Inr \<lparr>ms_client = pm, ms_phase = MainAt (start_seeds_stop headerindexer_seeds)\<rparr>)"

text \<open>Its \<open>OnAddr\<close> logs only.\<close>

definition headerindexer_OnAddr :: "'z logger \<Rightarrow> managed_peer \<Rightarrow> net_addr list \<Rightarrow> ('z, log_value) log_entry list" where
  "headerindexer_OnAddr log mp as = log_addresses log mp (length as)"

section \<open>The invariant of such a program\<close>

definition client_idle :: "bool \<Rightarrow> bool \<Rightarrow> manager \<Rightarrow> bool" where
  "client_idle started done pm \<longleftrightarrow> pm_started pm = started \<and> pm_done pm = done \<and> pm_stop pm = StopIdle"

text \<open>Before the first seed the client has no peer, so that seed is accepted.\<close>

definition calls_inv :: "string list \<Rightarrow> main_call list \<Rightarrow> manager \<Rightarrow> bool" where
  "calls_inv seeds calls pm \<longleftrightarrow>
     calls = start_seeds_stop seeds \<and> client_idle False False pm \<and> untouched_client pm \<or>
     client_idle True False pm \<and>
       (calls = map CallAddPeer seeds @ [CallWait, CallStop] \<and> untouched_client pm \<or>
        (\<exists>as. calls = map CallAddPeer as @ [CallWait, CallStop] \<and> length as < length seeds) \<or>
        calls = [CallStop])"

definition main_inv :: "string list \<Rightarrow> main_state \<Rightarrow> bool" where
  "main_inv seeds ms \<longleftrightarrow>
     manager_inv (ms_client ms) \<and>
     (case ms_phase ms of
        MainAt calls \<Rightarrow> calls_inv seeds calls (ms_client ms)
      | MainStopping \<Rightarrow> pm_started (ms_client ms) \<and> pm_done (ms_client ms) \<and> pm_stop (ms_client ms) \<noteq> StopIdle
      | MainFatal m e \<Rightarrow> 1 < length seeds \<and> m = ''failed to add seed peer'' \<and>
          e \<in> {ErrMaxPeersReached, ErrPeerAlreadyExists}
      | MainReturned e \<Rightarrow> e \<in> {None, Some ErrStopTimeout})"

definition main_safe :: "string list \<Rightarrow> main_state outcome \<Rightarrow> bool" where
  "main_safe seeds r = (case r of Next ms \<Rightarrow> main_inv seeds ms | Blocked \<Rightarrow> True | Panic s \<Rightarrow> False)"

lemma main_safe_simps [simp]:
  "main_safe seeds (Next ms) = main_inv seeds ms" "main_safe seeds Blocked" "\<not> main_safe seeds (Panic s)"
  by (simp_all add: main_safe_def)

lemma calls_inv_cycle:
  assumes "calls_inv seeds calls pm" and "same_cycle pm pm'" and "untouched_client pm \<Longrightarrow> untouched_client pm'"
  shows "calls_inv seeds calls pm'"
  using assms by (auto simp: calls_inv_def client_idle_def same_cycle_def)

lemma add_call_safe:
  assumes inv: "manager_inv pm" and idle: "client_idle True False pm"
    and first: "a # as = seeds \<and> untouched_client pm \<or> length (a # as) < length seeds"
  shows "main_safe seeds (main_call_exec \<lparr>ms_client = pm, ms_phase = ph\<rparr> (CallAddPeer a) (map CallAddPeer as @ [CallWait, CallStop]))"
proof -
  obtain e pm' where ad: "addPeer False a pm = (e, pm')" by force
  have inv': "manager_inv pm'" using addPeer_inv [OF inv, of False a] ad by simp
  have idle': "client_idle True False pm'"
    using idle addPeer_cycle [of pm False a] ad by (auto simp: client_idle_def same_cycle_def)
  have "e \<noteq> None \<Longrightarrow> e = Some ErrPeerAlreadyExists \<or> e = Some ErrMaxPeersReached"
    using ad by (auto simp: addPeer_def split: if_splits)
  moreover have "e = None" if "untouched_client pm"
    using untouched_addPeer [OF that] inv ad by (auto simp: manager_inv_def)
  ultimately show ?thesis
    using ad first idle idle' inv'
    by (auto simp: fatal_or_def enabled_if_def client_idle_def main_inv_def calls_inv_def split: option.splits)
qed

lemma start_call_safe:
  assumes inv: "manager_inv pm" and "client_idle False False pm" and "untouched_client pm"
  shows "main_safe seeds (main_call_exec \<lparr>ms_client = pm, ms_phase = ph\<rparr> CallStart (map CallAddPeer seeds @ [CallWait, CallStop]))"
  using assms
  by (auto simp: fatal_or_def enabled_if_def client_idle_def client_Start_def main_inv_def calls_inv_def
      untouched_client_def manager_inv_def)

lemma main_stop_call_safe:
  assumes "manager_inv pm" and "client_idle True False pm"
  shows "main_safe seeds (main_call_exec \<lparr>ms_client = pm, ms_phase = ph\<rparr> CallStop [])"
  using assms
  by (auto simp: enabled_if_def client_idle_def client_Stop_close_def main_inv_def manager_inv_def)

lemma next_safe:
  assumes "main_inv seeds ms" 
  shows "main_safe seeds (main_exec ms MainNext)"
proof (cases "ms_phase ms")
  case (MainAt calls)
  obtain pm where ms: "ms = \<lparr>ms_client = pm, ms_phase = MainAt calls\<rparr>" using MainAt by (cases ms) simp
  with assms have m: "manager_inv pm" and c: "calls_inv seeds calls pm" by (simp_all add: main_inv_def)
  from c consider "calls = start_seeds_stop seeds" "client_idle False False pm" "untouched_client pm"
    | as where "calls = map CallAddPeer as @ [CallWait, CallStop]" "client_idle True False pm"
        "as = seeds \<and> untouched_client pm \<or> length as < length seeds"
    | "calls = [CallStop]" "client_idle True False pm"
    by (auto simp: calls_inv_def)
  then show ?thesis
  proof cases
    case 1
    with start_call_safe [OF m 1(2,3)] show ?thesis by (simp add: ms start_seeds_stop_def)
  next
    case (2 as)
    show ?thesis
    proof (cases as)
      case Nil
      with 2 m show ?thesis by (simp add: ms main_inv_def calls_inv_def)
    next
      case (Cons a as')
      with 2 add_call_safe [OF m 2(2), of a as' seeds "MainAt calls"] show ?thesis by (simp add: ms)
    qed
  next
    case 3
    with main_stop_call_safe [OF m 3(2), of seeds] show ?thesis by (simp add: ms)
  qed
qed simp_all

lemma stop_step_main_safe:
  assumes "main_inv seeds ms"
  shows "main_safe seeds (main_exec ms (MainStopStep a))"
proof (cases "ms_phase ms = MainStopping \<and> a \<in> {AStopCancel, AStopGraceful, AStopTimeout}")
  case True
  with assms have m: "manager_inv (ms_client ms)" and st: "pm_started (ms_client ms)" "pm_done (ms_client ms)"
    "pm_stop (ms_client ms) \<noteq> StopIdle"
    by (simp_all add: main_inv_def)
  show ?thesis
  proof (cases "client_exec (ms_client ms) a")
    case (Next res)
    obtain e pm where res: "res = (e, pm)" by (cases res)
    have pm: "manager_inv pm" using client_exec_inv [OF m] Next res by blast
    have "pm_stop pm = StopWaiting" if "a = AStopCancel"
      using that Next res by (auto simp: client_Stop_cancel_def)
    moreover have "e \<in> {None, Some ErrStopTimeout}" if "a \<noteq> AStopCancel"
      using that True Next res by (auto simp: client_Stop_graceful_def client_Stop_timeout_def split: if_splits)
    ultimately show ?thesis using True Next res pm by (auto simp: main_inv_def manager_inv_def)
  next
    case (Panic s)
    with panic_iff_double_stop [OF m, of a] st show ?thesis by (auto simp: double_stop_def)
  qed (use True in simp)
qed auto

lemma background_main_safe:
  assumes "main_inv seeds ms"
  shows "main_safe seeds (main_exec ms (MainBackground a))"
proof (cases "background a \<and> \<not> main_over (ms_phase ms)")
  case True
  have m: "manager_inv (ms_client ms)" using assms by (simp add: main_inv_def)
  show ?thesis
  proof (cases "client_exec (ms_client ms) a")
    case (Next res)
    obtain e pm where res: "res = (e, pm)" by (cases res)
    have ex: "client_exec (ms_client ms) a = Next (e, pm)" using Next res by simp
    have b: "background a" using True by simp
    note c = background_cycle [OF b ex] background_untouched [OF _ b ex]
    show ?thesis
      using True assms ex client_exec_inv [OF m ex] calls_inv_cycle [OF _ c, of seeds] c(1)
      by (auto simp: main_inv_def same_cycle_def main_over_def split: main_phase.splits)
  next
    case (Panic s)
    with background_no_panic [OF m] True show ?thesis by blast
  qed (use True in simp)
qed auto

lemma main_exec_safe: "main_inv seeds ms \<Longrightarrow> main_safe seeds (main_exec ms a)"
  by (cases a) (simp_all only: next_safe stop_step_main_safe background_main_safe)

lemma main_run_safe: "main_inv seeds ms \<Longrightarrow> main_safe seeds (main_run ms as)"
proof (induction as arbitrary: ms)
  case (Cons a as)
  from main_exec_safe [OF Cons.prems, of a] Cons.IH show ?case by (cases "main_exec ms a") auto
qed simp

lemma new_main_inv:
  assumes "NewBtcClient opts mainNet = Inr pm"
  shows "main_inv seeds \<lparr>ms_client = pm, ms_phase = MainAt (start_seeds_stop seeds)\<rparr>"
  using fresh_inv [OF assms] by (simp add: main_inv_def calls_inv_def client_idle_def untouched_client_def)

end
