(* ===== verification/Entry_Props.thy ===== *)
theory Entry_Props
  imports Entry_Points Example_Mains Indexer_Props
begin

text \<open>
  The properties of the programs: what the command assembles and leaves behind, and how the examples
  can end.
\<close>

section \<open>The command\<close>

lemma ImportEnv_cases: "(\<exists>v'. ImportEnv V v = Next v') \<or> (\<exists>s. ImportEnv V v = Panic s)"
  by (auto simp: ImportEnv_def Let_def split: prod.splits option.splits viper_error.splits)

text \<open>The node that the command asks for: its options are constants, and valid.\<close>

lemma cmd_node:
  fixes store :: 'db and log :: 'l
  shows "\<exists>idx :: ('h, 'l, 'db) indexer. indexer_New nets log tag
     [indexer_WithNetwork nets ''mainnet'', indexer_WithMaxPeers 10, indexer_WithPeers [],
      indexer_WithLogger (Some log), indexer_WithDb (Some store)] = Inr idx \<and>
     \<not> ix_running idx \<and> \<not> pm_started (ix_client idx) \<and> pm_objs (ix_client idx) = [] \<and>
     ic_Store (ix_cfg idx) = Some store \<and> pm_maxPeers (ix_client idx) = 10 \<and>
     pm_listeners (ix_client idx) = no_listeners \<and> indexer_peers idx = resolvePeers [] (net_MainNet nets)"
  by (simp add: indexer_New_def indexer_validate_def NewBtcClient_def newPeerManager_def apply_options_def
      client_option_defs client_DefaultConfig_def client_validate_def second_def Let_def
      indexer_WithNetwork_def indexer_WithMaxPeers_def indexer_WithPeers_def indexer_WithLogger_def
      indexer_WithDb_def indexer_DefaultConfig_def ResolveChainParams_def indexer_peers_def)

text \<open>The store that the command opens.\<close>

lemma cmd_store:
  fixes log :: "'z logger"
  defines "opts wal \<equiv> [db_WithColumnFamilies [''headers''], db_WithWALDir wal, db_WithLogger log]"
  shows "pebble_Open E n path (opts wal) = Inl e \<Longrightarrow> \<exists>opts e. pb_open E path opts = Inl e"
    and "pebble_Open E n path (opts wal) = Inr store \<Longrightarrow>
      \<not> pd_closed store \<and> pd_path store = path \<and>
      (\<forall>cf. map_of (pd_prefixes store) cf \<noteq> None \<longleftrightarrow> cf \<in> {''default'', ''headers''})"
proof -
  show "pebble_Open E n path (opts wal) = Inl e \<Longrightarrow> \<exists>opts e. pb_open E path opts = Inl e"
    by (auto simp: pebble_Open_def Let_def split: sum.splits)
  assume open_: "pebble_Open E n path (opts wal) = Inr store"
  have "pd_path store = path" using open_ by (auto simp: pebble_Open_def Let_def split: sum.splits)
  with pebble_Open_fields [OF open_]
  show "\<not> pd_closed store \<and> pd_path store = path \<and>
      (\<forall>cf. map_of (pd_prefixes store) cf \<noteq> None \<longleftrightarrow> cf \<in> {''default'', ''headers''})"
    by (simp add: build_prefixes_map opened_families_def opts_def db_option_defs DefaultColumnFamily_def)
qed

text \<open>C38. The command panics only when the environment file cannot be parsed or zap cannot be built,
  and ends with \<open>Fatal\<close> only when the database does not open. Otherwise it returns at once: the store
  is still open, with the families default and headers, and the mainnet node with a limit of ten
  peers and only the seeds to connect to has not been started and has no listener for headers.\<close>

theorem cmd_main_outcomes:
  fixes zap :: "('z, 'kv) zap"
  shows "case (cmd_main V v zap E numCPU nets tag :: ('z, 'e, 'h) cmd_end) of
       CmdPanic s \<Rightarrow> (\<exists>s. ImportEnv V v = Panic s) \<or> (\<exists>s. NewProduction zap [] = Inl s)
     | CmdFatal m \<Rightarrow> m = ''failed to create database'' \<and>
         (\<exists>dir opts e. pb_open E (path_join [dir, ''db'']) opts = Inl e)
     | CmdReturns cfg log store idx \<Rightarrow>
         \<not> pd_closed store \<and> pd_path store = path_join [BREWERY_DATA_DIR cfg, ''db''] \<and>
         (\<forall>cf. map_of (pd_prefixes store) cf \<noteq> None \<longleftrightarrow> cf \<in> {''default'', ''headers''}) \<and>
         ic_Store (ix_cfg idx) = Some store \<and> \<not> ix_running idx \<and> \<not> pm_started (ix_client idx) \<and>
         pm_objs (ix_client idx) = [] \<and> pm_maxPeers (ix_client idx) = 10 \<and>
         pm_listeners (ix_client idx) = no_listeners \<and>
         indexer_peers idx = resolvePeers [] (net_MainNet nets)"
proof (cases "LoadConfig V v initial_config")
  case (Next cfg)
  then have cfg: "BREWERY_CHAINPARAM cfg = ''mainnet''" "BREWERY_MAXPEERS cfg = 10" "BREWERY_ENODE cfg = []"
    by (auto simp: LoadConfig_def initial_config_def split: outcome.splits)
  show ?thesis
  proof (cases "NewProduction zap []")
    case (Inl s)
    with Next show ?thesis by (simp add: cmd_main_def MustProduction_def)
  next
    case (Inr log)
    let ?opts = "[db_WithColumnFamilies [''headers''], db_WithWALDir (path_join [BREWERY_DATA_DIR cfg, ''wal'']),
        db_WithLogger log] :: 'z logger db_option list"
    show ?thesis
    proof (cases "pebble_Open E numCPU (path_join [BREWERY_DATA_DIR cfg, ''db'']) ?opts")
      case (Inl e)
      with cmd_store(1) [OF Inl] Next \<open>NewProduction zap [] = Inr log\<close> show ?thesis
        by (auto simp: cmd_main_def MustProduction_def SetDefault_def Default_def)
    next
      case (Inr store)
      obtain idx :: "('h, 'z logger, 'e pebble_db) indexer" where
        "indexer_New nets log tag
          [indexer_WithNetwork nets ''mainnet'', indexer_WithMaxPeers 10, indexer_WithPeers [],
           indexer_WithLogger (Some log), indexer_WithDb (Some store)] = Inr idx"
        "\<not> ix_running idx" "\<not> pm_started (ix_client idx)" "pm_objs (ix_client idx) = []"
        "ic_Store (ix_cfg idx) = Some store" "pm_maxPeers (ix_client idx) = 10"
        "pm_listeners (ix_client idx) = no_listeners" "indexer_peers idx = resolvePeers [] (net_MainNet nets)"
        using cmd_node [of nets log tag store] by blast
      with cmd_store(2) [OF Inr] show ?thesis
        using Inr Next \<open>NewProduction zap [] = Inr log\<close> cfg
        by (simp add: cmd_main_def MustProduction_def SetDefault_def Default_def)
    qed
  qed
next
  case (Panic s)
  then show ?thesis using ImportEnv_cases [of V v] by (auto simp: cmd_main_def LoadConfig_def split: outcome.splits)
next
  case Blocked
  then show ?thesis using ImportEnv_cases [of V v] by (auto simp: LoadConfig_def split: outcome.splits)
qed

lemma cmd_paths: "path_join ['''', ''db''] = ''db''" "path_join [''/var/lib/x/..'', ''wal''] = ''/var/lib/wal''"
  by code_simp+

text \<open>The test program reaches its end whenever zap can be built.\<close>

lemma test_main_outcomes:
  "case test_main zap nets of
       TestPanic s \<Rightarrow> \<exists>s. NewDevelopment zap [] = Inl s
     | TestFatal m \<Rightarrow> False
     | TestReturns pm \<Rightarrow> pm_chainParams pm = Some (net_SigNet nets) \<and> pm_peers pm = [] \<and> \<not> pm_started pm"
  by (auto simp: test_main_def MustDevelopment_def NewBtcClient_def newPeerManager_def client_option_defs
      client_DefaultConfig_def client_validate_def second_def split: sum.splits)

section \<open>The examples\<close>

lemma example_client_new:
  "0 < n \<Longrightarrow> \<exists>pm. NewBtcClient [client_WithChainParams (Some params), client_WithMaxPeers n,
     client_WithLogger log, client_WithListeners (Some l)] mainNet = Inr pm"
  by (simp add: NewBtcClient_def apply_options_def client_option_defs client_DefaultConfig_def
      client_validate_def second_def)

lemma requestpeers_main_inv: "\<exists>ms. requestpeers_main nets log = Inr ms \<and> main_inv requestpeers_seeds ms"
proof -
  obtain pm where "NewBtcClient [client_WithChainParams (Some (net_MainNet nets)), client_WithMaxPeers 1,
      client_WithLogger (Some log), client_WithListeners (Some requestpeers_listeners)] (net_MainNet nets) = Inr pm"
    using example_client_new [of 1] by fastforce
  from this new_main_inv [OF this] show ?thesis by (simp add: requestpeers_main_def)
qed


text \<open>C37. \<open>requestpeers\<close> never ends with \<open>Fatal\<close> and never panics, whatever its client's goroutines and
  the network do between its calls: the client is created and started, the one seed is accepted,
  and \<open>Stop\<close> returns nil or a timeout.\<close>

theorem requestpeers_never_fatal:
  "case requestpeers_main nets log of
     Inl e \<Rightarrow> False
   | Inr ms0 \<Rightarrow>
       (case main_run ms0 as of
          Panic s \<Rightarrow> False
        | Blocked \<Rightarrow> True
        | Next ms \<Rightarrow>
            (case ms_phase ms of
               MainFatal m e \<Rightarrow> False
             | MainReturned e \<Rightarrow> e \<in> {None, Some ErrStopTimeout}
             | _ \<Rightarrow> True))"
proof -
  obtain ms0 where ms0: "requestpeers_main nets log = Inr ms0" "main_inv requestpeers_seeds ms0"
    using requestpeers_main_inv [of nets log] by blast
  note safe = main_run_safe [OF ms0(2), of as]
  show ?thesis
  proof (cases "main_run ms0 as")
    case (Next ms)
    with safe show ?thesis
      by (cases "ms_phase ms") (simp_all add: ms0(1) main_inv_def requestpeers_seeds_def)
  qed (use safe in \<open>simp_all add: ms0(1)\<close>)
qed




end
