(* ===== verification/Spec2Isabelle.thy ===== *)
theory Spec2Isabelle
  imports Store_Props Client_Props Registry_Props Lock_Props Indexer_Props Header_Props Node_Props Entry_Props
begin

text \<open>
  A verification library for \<^bold>\<open>brewery-bitcoin\<close>, a Bitcoin indexing node in Go.

  \<^bold>\<open>The program.\<close> The repository has three parts that carry its logic. The storage layer \<open>db/\<close> offers
  one interface, \<open>Store\<close>, with column families, batches and iterators, and two implementations: one
  over the Pebble engine, which simulates families by key prefixes, and one in memory for tests.
  The P2P client \<open>pkg/btcclient/\<close> keeps a registry of peers, a goroutine per peer that dials,
  waits and retries, a health-check goroutine, and peer discovery. The node \<open>indexer/\<close> configures
  a client, resolves the addresses to connect to, and collects block headers;
  \<open>examples/headerindexer\<close> completes its handlers with requests. Around them stand the logger
  \<open>pkg/logger/\<close>, the environment \<open>config/\<close> and \<open>utils/\<close>, and the \<open>main\<close> functions.

  \<^bold>\<open>Theories and code.\<close>
  \<^item> \<open>Prelude\<close>: byte slices (nil is \<open>None\<close>), strings, steps that block or panic, runs, the locale
    \<open>simulation\<close>, the standard library's \<open>sort.Search\<close>.
  \<^item> \<open>Store_Spec\<close> (\<open>db/db.go\<close>): the errors, the operations of a client, the abstract store \<open>spec_exec\<close>;
    the locales \<open>cursor\<close> (an iterator) and \<open>kv_store\<close> (a store).
  \<^item> \<open>Mock_Iterator\<close>, \<open>Mock_Store\<close> (\<open>db/mock.go\<close>): snapshot iterator, store, batches; they interpret
    \<open>cursor\<close> and \<open>kv_store\<close>.
  \<^item> \<open>Keyspace\<close>, \<open>Pebble_Engine\<close>, \<open>Pebble_Iterator\<close>, \<open>Pebble_Store\<close> (\<open>db/pebble.go\<close>) and \<open>Db_Options\<close>
    (\<open>db/options.go\<close>): the key scheme, the engine as a parameter with its documented behaviour
    \<open>engine_ok\<close>, iterator, store and batches, which satisfy \<open>cursor\<close> and \<open>kv_store\<close> for every such engine.
  \<^item> \<open>Client_Config\<close>, \<open>Managed_Peer\<close>, \<open>Peer_Manager\<close>, \<open>Btc_Client\<close> (\<open>config.go\<close>, \<open>errors.go\<close>, \<open>peer.go\<close>,
    \<open>manager.go\<close>, \<open>handlers.go\<close>, \<open>client.go\<close> of \<open>pkg/btcclient\<close>): the client as a transition system.
    A state is the manager with its heap of peer objects, each with the program counter of its
    goroutine; \<open>client_exec\<close> is one action, and \<open>reach\<close> the reachable states.
  \<^item> \<open>Client_Inv\<close>, \<open>Client_Reach\<close>: the invariant, and that every action keeps it. \<open>Client_Live\<close>: what an
    action leaves alone, and the rank that bounds a loop told to end. \<open>Client_Ops\<close>, \<open>Client_Evict\<close>:
    discovery, health check, the retry rounds, and the concrete runs.
  \<^item> \<open>Client_Entries\<close>, \<open>Client_Registry\<close>: how registry entries relate to loops, and the registry as an
    abstract bounded list that the manager implements through \<open>simulation\<close>.
  \<^item> \<open>Lock_Order\<close>: Go's mutexes, readers-writer locks and wait group under a scheduler, and the locale
    \<open>lock_discipline\<close>: operations that follow an order never deadlock. \<open>Client_Locks\<close>: the locks that
    each operation of client, node and header indexer takes, which interpret that locale.
  \<^item> \<open>Indexer\<close>, \<open>Indexer_Inv\<close> (\<open>indexer/\<close>): configuration, life cycle, peers, headers; the locale
    \<open>peer_client\<close> says what the node needs of \<open>AddPeer\<close>, and the manager interprets it.
  \<^item> \<open>Client_Env\<close>, \<open>Node\<close>, \<open>Node_Inv\<close>: the whole node, \<open>Run\<close> as a state machine among the goroutines of
    its client and the network, and its invariant.
  \<^item> \<open>Header_Indexer\<close> (\<open>examples/headerindexer\<close>): the handlers that request, and a synchronisation
    with a peer. \<open>Header_Net\<close>: the same among any number of peers, with requests as messages in flight.
  \<^item> \<open>Logger\<close> (\<open>pkg/logger\<close>): the interface, the silent and the zap logger, options, the global default.
  \<^item> \<open>Entry_Points\<close> (\<open>utils\<close>, \<open>config\<close>, \<open>cmd/main.go\<close>, \<open>test/main.go\<close>): reading the environment and assembling
    the program. \<open>Example_Mains\<close>: the \<open>main\<close> functions of \<open>examples/requestpeers\<close> and
    \<open>examples/headerindexer\<close> among the goroutines of their client.
  \<^item> \<open>Store_Props\<close>, \<open>Client_Props\<close>, \<open>Registry_Props\<close>, \<open>Lock_Props\<close>, \<open>Indexer_Props\<close>, \<open>Header_Props\<close>,
    \<open>Node_Props\<close>, \<open>Entry_Props\<close> and this theory hold the properties.

  \<^bold>\<open>What is shown.\<close> Both stores return, for every sequence of operations, what the abstract store
  returns, so they agree with each other; iterators yield exactly the family's entries in order;
  batches amount to their calls in sequence; families with NUL-free names are separate, and others
  need not be. The client keeps its registry within capacity and consistent, its counters in range
  and its statuses tied to the loops; the only panic is a \<open>Stop\<close> after the channel is closed; loops
  told to end do so in at most 14 steps unless a live connection holds them; unreachable peers are
  evicted after \<open>MaxFailureCount\<close> attempts. Concrete executions show a \<open>Stop\<close> that cannot end, an
  eviction that hits another peer, and a callback that runs twice. The node resolves and registers
  peers as documented, can run only once, and its header chain is as good as the messages; the
  header indexer synchronises, with one peer or many in any order of messages, but misses the end
  when the chain length is a multiple of 2000, and stores the chain once for each peer that
  connects at the same time.
  The registry implements an abstract bounded list; a registered peer at the failure threshold is
  about to evict itself; an entry whose goroutine ended with its context stays for good; a waiting
  \<open>Stop\<close> is held up by live connections only. Whatever its client does meanwhile, \<open>Run\<close> on a new node
  never panics, fails only when no address could be added or on a timeout, and leaves no goroutine
  when it returns nil. Goroutines that run the operations never deadlock on their locks, provided
  that callbacks follow the lock order, and they do deadlock when a callback calls back into the
  client. \<open>cmd/main.go\<close> assembles the program and returns; \<open>requestpeers\<close> never ends with
  \<open>Fatal\<close>, \<open>headerindexer\<close> can.

  \<^bold>\<open>Bounds.\<close> Failure counters, ports, engine counts and memory sizes are words of their Go width, and
  the counter is proved not to wrap. Loops over data are structural; iterator loops are a
  \<open>partial_function\<close>, and their result is proved to be defined. \<open>sync_with\<close> takes a bound on the
  rounds: one more than the number of full batches is enough, and more changes nothing. Among several
  peers the number of answers is bounded by that, for each connection and announcement.

  \<^bold>\<open>Abstractions.\<close> In the state machines a critical section is one step, since each method holds its
  lock throughout; in \<open>connectionLoop\<close> a step is one statement. The locks themselves are modelled
  apart, in \<open>Client_Locks\<close>, where an operation is its sequence of lock operations. \<open>Stop\<close> is three
  steps and excludes the other API calls, as its lock does. Time is left out: a timer may fire at
  any moment, and a dial may fail or succeed at any moment, but not succeed on a cancelled context.
  Callbacks are recorded in a trace; those that call back into the client are studied in
  \<open>Lock_Props\<close>, where they block on the registry's lock. \<open>connectPeers\<close> is given both in a row, in
  \<open>Indexer\<close>, and interleaved, in \<open>Node\<close>. Memory is not shared between Go slices: the stores copy the
  slices they take and return. A wrapped error is its text.

  \<^bold>\<open>Not modelled.\<close> The log calls inside the components, which return nothing and change no state of
  theirs, except the callbacks of the examples, which consist of them. The wire protocol, Pebble, zap, viper
  and the network are parameters or the environment.
\<close>

section \<open>One contract, two stores\<close>

text \<open>C3. The in-memory store is a faithful stand-in: on a fresh engine that behaves as documented, and
  with NUL-free family names, the production store and an in-memory store with the same families
  return the same results for every sequence of operations.\<close>

theorem stores_agree:
  assumes "engine_ok E V" and "pebble_Open E n path opts = Inr p" and "ev_open V (pd_db p)"
    and "ev_map V (pd_db p) = Map.empty" and "\<forall>cf \<in> set (opened_families opts n). nul_free cf"
  shows "fst (run_ops (pebble_exec E) p xs) = fst (run_ops mock_exec (NewMockStore (opened_families opts n)) xs)"
proof -
  have "ev_map V (pd_db p) k = None" for k by (simp add: assms(4))
  then have "pebble_abs V p = mock_abs (NewMockStore (opened_families opts n))"
    using pebble_Open_ok(2) [OF assms(2,3,5)] by (auto simp: empty_families_def fun_eq_iff)
  then show ?thesis
    using simulation.run_results [OF kv_store.axioms [OF pebble_kv_store [OF assms(1)]]
        pebble_Open_ok(1) [OF assms(2,3,5)], of xs]
    by (simp add: mock.run_results)
qed

lemma stores_agree_witness:
  "fst (run_ops (pebble_exec mem_engine) demo_db [OpPut ''a'' (Some [1]) None, OpScan ''a'']) =
   fst (run_ops mock_exec (NewMockStore [''a'']) [OpPut ''a'' (Some [1]) None, OpScan ''a''])"
  using stores_agree [OF mem_engine_ok demo_Open demo_open demo_empty, of "[OpPut ''a'' (Some [1]) None, OpScan ''a'']"]
  by (simp add: demo_families nul_free_a del: run_ops.simps)

end
